theory Spec2Isabelle
  imports Complex_Main "HOL-Library.Sublist"
begin

section \<open>Conventions\<close>

text \<open>
  The development embeds \<^verbatim>\<open>src/session2/fitting.py\<close>. Arrays are lists. An
  exception raised by the Python code is a value \<open>Inl e\<close> of a sum type.

  Inside \<^verbatim>\<open>loss_RL_model\<close> numbers are real numbers: rounding and overflow of the
  floating-point arithmetic are not modelled there. The parameters and gradients that
  \<^verbatim>\<open>run_opt\<close> handles and the losses that \<^verbatim>\<open>get_params\<close> compares are values
  of the type \<open>fl\<close>: a finite number, plus or minus infinity, or NaN. Its operations
  follow the floating-point ones in how they treat the non-finite values (every
  comparison with NaN is false, \<^verbatim>\<open>maximum\<close> and \<^verbatim>\<open>minimum\<close> return NaN for a NaN
  argument) and are exact on the finite ones.
\<close>

datatype error = TypeError | IndexError | ValueError | KeyError | UnboundLocalError

type_synonym param_dict = "(string \<times> real list) list"
type_synonym trial_data = "real list \<times> real list \<times> real list \<times> real list"

datatype fl = Fin real | PInf | NInf | NaN

fun isnan :: "fl \<Rightarrow> bool" where
  "isnan NaN = True"
| "isnan _ = False"

fun isfinite :: "fl \<Rightarrow> bool" where
  "isfinite (Fin _) = True"
| "isfinite _ = False"

text \<open>The comparisons \<^verbatim>\<open><\<close> and \<^verbatim>\<open><=\<close>.\<close>

fun fl_less :: "fl \<Rightarrow> fl \<Rightarrow> bool" where
  "fl_less NaN _ = False"
| "fl_less _ NaN = False"
| "fl_less (Fin a) (Fin b) = (a < b)"
| "fl_less (Fin _) PInf = True"
| "fl_less (Fin _) NInf = False"
| "fl_less NInf NInf = False"
| "fl_less NInf _ = True"
| "fl_less PInf _ = False"

fun fl_le :: "fl \<Rightarrow> fl \<Rightarrow> bool" where
  "fl_le NaN _ = False"
| "fl_le _ NaN = False"
| "fl_le (Fin a) (Fin b) = (a \<le> b)"
| "fl_le NInf _ = True"
| "fl_le _ PInf = True"
| "fl_le PInf _ = False"
| "fl_le _ NInf = False"

text \<open>\<^verbatim>\<open>jnp.maximum\<close>, \<^verbatim>\<open>jnp.minimum\<close> and the sum of two values.\<close>

definition fl_max :: "fl \<Rightarrow> fl \<Rightarrow> fl" where
  "fl_max a b = (if isnan a \<or> isnan b then NaN else if fl_less a b then b else a)"

definition fl_min :: "fl \<Rightarrow> fl \<Rightarrow> fl" where
  "fl_min a b = (if isnan a \<or> isnan b then NaN else if fl_less b a then b else a)"

fun fl_add :: "fl \<Rightarrow> fl \<Rightarrow> fl" where
  "fl_add NaN _ = NaN"
| "fl_add _ NaN = NaN"
| "fl_add (Fin a) (Fin b) = Fin (a + b)"
| "fl_add PInf NInf = NaN"
| "fl_add NInf PInf = NaN"
| "fl_add PInf _ = PInf"
| "fl_add _ PInf = PInf"
| "fl_add NInf _ = NInf"
| "fl_add _ NInf = NInf"

section \<open>The loss: \<^verbatim>\<open>utility_fun\<close> and \<^verbatim>\<open>loss_RL_model\<close>\<close>

text \<open>
  \<^verbatim>\<open>def utility_fun(mag, prob): return mag*prob\<close>. The product of two arrays is
  taken trial by trial, so a utility function is given by what it does at one trial and
  is applied along the trials with \<open>map2\<close>.
\<close>

definition utility_fun :: "real \<Rightarrow> real \<Rightarrow> real" where
  "utility_fun mag prob = mag * prob"

text \<open>\<^verbatim>\<open>jax.lax.scan(f, init, xs)\<close>: the final carry and the list of the outputs.\<close>

fun scan :: "('c \<Rightarrow> 'x \<Rightarrow> 'c \<times> 'y) \<Rightarrow> 'c \<Rightarrow> 'x list \<Rightarrow> 'c \<times> 'y list" where
  "scan f init [] = (init, [])"
| "scan f init (x # xs) =
     (case f init x of (carry, y) \<Rightarrow>
        (case scan f carry xs of (final, ys) \<Rightarrow> (final, y # ys)))"

text \<open>
  The body of the scan, lines 60 to 64:
  \<^verbatim>\<open>delta = opt1Rewarded[t] - probOpt1; probOpt1 = probOpt1 + alpha * delta\<close>.
  The index \<open>t\<close> comes from \<^verbatim>\<open>jnp.arange(nTrials)\<close> and is in range whenever
  there is a trial.
\<close>

definition compute_probOpt1 :: "real list \<Rightarrow> real \<Rightarrow> real \<Rightarrow> nat \<Rightarrow> real \<times> real" where
  "compute_probOpt1 opt1Rewarded alpha carry t =
     (let probOpt1 = carry;
          delta = opt1Rewarded ! t - probOpt1;
          probOpt1 = probOpt1 + alpha * delta
      in (probOpt1, probOpt1))"

text \<open>
  The variable \<^verbatim>\<open>probOpt1\<close> after lines 73 and 76: the scanned beliefs without
  their last element, behind the starting probability.
\<close>

definition probOpt1 :: "real list \<Rightarrow> real \<Rightarrow> real \<Rightarrow> real list" where
  "probOpt1 opt1Rewarded alpha startingProb =
     (let nTrials = length opt1Rewarded;
          scanned = snd (scan (compute_probOpt1 opt1Rewarded alpha) startingProb [0..<nTrials])
      in [startingProb] @ butlast scanned)"

text \<open>
  \<^verbatim>\<open>optax.sigmoid_binary_cross_entropy(logits, labels)\<close> is computed by the library as
  \<^verbatim>\<open>-labels * log_sigmoid(logits) - (1 - labels) * log_sigmoid(-logits)\<close>, with
  \<^verbatim>\<open>log_sigmoid(x) = -log(1 + exp(-x))\<close>; \<^verbatim>\<open>.mean()\<close> divides the sum by the
  number of elements.
\<close>

definition log_sigmoid :: "real \<Rightarrow> real" where
  "log_sigmoid x = - ln (1 + exp (- x))"

definition sigmoid_binary_cross_entropy :: "real \<Rightarrow> real \<Rightarrow> real" where
  "sigmoid_binary_cross_entropy logits labels =
     (let log_p = log_sigmoid logits;
          log_not_p = log_sigmoid (- logits)
      in - labels * log_p - (1 - labels) * log_not_p)"

definition mean :: "real list \<Rightarrow> real" where
  "mean xs = sum_list xs / real (length xs)"

text \<open>
  \<^verbatim>\<open>otu.tree_get(params, key)[0]\<close> on a flat dictionary of arrays: a missing key gives
  \<^verbatim>\<open>None\<close>, whose indexing raises \<^verbatim>\<open>TypeError\<close>; an empty array raises
  \<^verbatim>\<open>IndexError\<close>.
\<close>

definition tree_get_0 :: "param_dict \<Rightarrow> string \<Rightarrow> error + real" where
  "tree_get_0 params key =
     (case map_of params key of
        None \<Rightarrow> Inl TypeError
      | Some [] \<Rightarrow> Inl IndexError
      | Some (x # _) \<Rightarrow> Inr x)"

text \<open>
  \<^verbatim>\<open>loss_RL_model\<close>, lines 52 to 86. The body of the scan is traced once even when
  there is no trial, and \<^verbatim>\<open>opt1Rewarded[t]\<close> on an empty array raises
  \<^verbatim>\<open>IndexError\<close>. The four arrays of the data have one element per trial; what the
  array operations do with arrays of unequal lengths (broadcasting or an exception) is
  not modelled.
\<close>

definition loss_RL_model ::
  "trial_data \<Rightarrow> param_dict \<Rightarrow> real \<Rightarrow> (real \<Rightarrow> real \<Rightarrow> real) \<Rightarrow> error + real" where
  "loss_RL_model data params startingProb utility_function =
     (case data of (opt1Rewarded, magOpt1, magOpt2, choice1) \<Rightarrow>
      (case tree_get_0 params ''alpha'' of Inl e \<Rightarrow> Inl e | Inr alpha \<Rightarrow>
      (case tree_get_0 params ''beta'' of Inl e \<Rightarrow> Inl e | Inr beta \<Rightarrow>
        if opt1Rewarded = [] then Inl IndexError
        else
          (let p = probOpt1 opt1Rewarded alpha startingProb;
               utility1 = map2 utility_function magOpt1 p;
               utility2 = map2 utility_function magOpt2 (map (\<lambda>q. 1 - q) p);
               choice1Logits = map (\<lambda>d. beta * d) (map2 (-) utility1 utility2);
               loss = mean (map2 sigmoid_binary_cross_entropy choice1Logits choice1)
           in Inr loss))))"

subsection \<open>What the specification says about the loss\<close>

text \<open>
  The belief entering each trial, as a recursion over the outcomes: the first trial is
  entered with \<open>p\<close>, the next one with \<open>p + a * (x - p)\<close>, where \<open>x\<close> is the outcome of
  the trial just played.
\<close>

fun belief_entering :: "real \<Rightarrow> real \<Rightarrow> real list \<Rightarrow> real list" where
  "belief_entering a p [] = []"
| "belief_entering a p (x # xs) = p # belief_entering a (p + a * (x - p)) xs"

text \<open>The sigmoid and the binary cross-entropy of a probability \<open>q\<close> and a label \<open>y\<close>.\<close>

definition sigmoid :: "real \<Rightarrow> real" where
  "sigmoid x = 1 / (1 + exp (- x))"

definition binary_cross_entropy :: "real \<Rightarrow> real \<Rightarrow> real" where
  "binary_cross_entropy q y = - (y * ln q + (1 - y) * ln (1 - q))"

text \<open>
  The recurrence in the words of the specification, for a belief sequence \<open>belief\<close>
  and a trajectory \<open>P\<close>: \<open>P[0] = p0\<close> and, for every \<open>t \<ge> 1\<close>,
  \<open>belief[t] = belief[t-1] + alpha * (rewarded1[t-1] - belief[t-1])\<close> with
  \<open>P[t] = belief[t-1]\<close>.
\<close>

definition spec_lagged_recurrence ::
  "real list \<Rightarrow> real \<Rightarrow> real \<Rightarrow> (nat \<Rightarrow> real) \<Rightarrow> real list \<Rightarrow> bool" where
  "spec_lagged_recurrence rewarded1 a p0 belief P \<longleftrightarrow>
     P ! 0 = p0 \<and>
     (\<forall>t \<in> {1..<length rewarded1}.
        belief t = belief (t - 1) + a * (rewarded1 ! (t - 1) - belief (t - 1)) \<and>
        P ! t = belief (t - 1))"

section \<open>The optimizer loop: \<^verbatim>\<open>run_opt\<close>\<close>

text \<open>
  A parameter dictionary: an array at a leaf, a dictionary of named subtrees otherwise
  (\<^verbatim>\<open>apply_clip\<close> descends into nested dictionaries). The entries of a dictionary
  are kept as a list, in the order in which \<^verbatim>\<open>params.items()\<close> yields them.
  The elements of an array are floating-point values, NaN and the infinities included.
\<close>

datatype ptree = Leaf "fl list" | Dict "(string \<times> ptree) list"

text \<open>The bound specification \<^verbatim>\<open>paramsClip\<close>, with its four keys.\<close>

record paramsClip =
  alphaMin :: fl
  alphaMax :: fl
  betaMin :: fl
  betaMax :: fl

text \<open>
  \<^verbatim>\<open>jnp.clip(x, lo, hi)\<close> is \<^verbatim>\<open>minimum(hi, maximum(lo, x))\<close>, element by element: a
  NaN element stays NaN.
\<close>

definition clip :: "fl \<Rightarrow> fl \<Rightarrow> fl \<Rightarrow> fl" where
  "clip x lo hi = fl_min hi (fl_max lo x)"

text \<open>
  \<^verbatim>\<open>clip_param\<close>, lines 113 to 118. \<^verbatim>\<open>'alpha' in name\<close> is the substring test; the
  \<^verbatim>\<open>elif\<close> makes the test for \<^verbatim>\<open>'beta'\<close> apply only to a name without
  \<^verbatim>\<open>'alpha'\<close>.
\<close>

definition clip_param :: "paramsClip \<Rightarrow> fl list \<Rightarrow> string \<Rightarrow> fl list" where
  "clip_param pc param name =
     (if sublist ''alpha'' name then map (\<lambda>x. clip x (alphaMin pc) (alphaMax pc)) param
      else if sublist ''beta'' name then map (\<lambda>x. clip x (betaMin pc) (betaMax pc)) param
      else param)"

text \<open>
  \<^verbatim>\<open>apply_clip\<close>, lines 120 to 123: the dictionary comprehension is the loop over the
  entries; the name passed down is \<^verbatim>\<open>path + '.' + k if path else k\<close>.
\<close>

fun apply_clip :: "paramsClip \<Rightarrow> ptree \<Rightarrow> string \<Rightarrow> ptree"
  and apply_clip_items :: "paramsClip \<Rightarrow> (string \<times> ptree) list \<Rightarrow> string \<Rightarrow> (string \<times> ptree) list"
where
  "apply_clip pc (Dict kvs) path = Dict (apply_clip_items pc kvs path)"
| "apply_clip pc (Leaf x) path = Leaf (clip_param pc x path)"
| "apply_clip_items pc [] path = []"
| "apply_clip_items pc ((k, v) # kvs) path =
     (k, apply_clip pc v (if path \<noteq> [] then path @ ''.'' @ k else k)) # apply_clip_items pc kvs path"

definition project_params :: "ptree \<Rightarrow> paramsClip \<Rightarrow> ptree" where
  "project_params params pc = apply_clip pc params []"

text \<open>
  \<^verbatim>\<open>optax.apply_updates(params, updates)\<close> adds the two trees leaf by leaf. Inside
  \<^verbatim>\<open>jax.lax.while_loop\<close> the carry keeps its tree structure and its shapes, so updates
  of another structure or of another length end the run with an exception.
\<close>

fun apply_updates :: "ptree \<Rightarrow> ptree \<Rightarrow> error + ptree"
  and apply_updates_items ::
    "(string \<times> ptree) list \<Rightarrow> (string \<times> ptree) list \<Rightarrow> error + (string \<times> ptree) list"
where
  "apply_updates (Leaf p) (Leaf u) =
     (if length p = length u then Inr (Leaf (map2 fl_add p u)) else Inl TypeError)"
| "apply_updates (Dict ps) (Dict us) =
     (case apply_updates_items ps us of Inl e \<Rightarrow> Inl e | Inr qs \<Rightarrow> Inr (Dict qs))"
| "apply_updates (Leaf p) (Dict us) = Inl TypeError"
| "apply_updates (Dict ps) (Leaf u) = Inl TypeError"
| "apply_updates_items [] [] = Inr []"
| "apply_updates_items ((k, p) # ps) ((k', u) # us) =
     (if k = k' then
        (case apply_updates p u of Inl e \<Rightarrow> Inl e | Inr q \<Rightarrow>
           (case apply_updates_items ps us of Inl e \<Rightarrow> Inl e | Inr qs \<Rightarrow> Inr ((k, q) # qs)))
      else Inl TypeError)"
| "apply_updates_items [] (x # us) = Inl TypeError"
| "apply_updates_items (x # ps) [] = Inl TypeError"

text \<open>
  The fields of a dictionary: every leaf with the name under which \<^verbatim>\<open>apply_clip\<close>
  hands it to \<^verbatim>\<open>clip_param\<close>.
\<close>

fun leaves :: "ptree \<Rightarrow> string \<Rightarrow> (string \<times> fl list) list"
  and leaves_items :: "(string \<times> ptree) list \<Rightarrow> string \<Rightarrow> (string \<times> fl list) list"
where
  "leaves (Leaf x) path = [(path, x)]"
| "leaves (Dict kvs) path = leaves_items kvs path"
| "leaves_items [] path = []"
| "leaves_items ((k, v) # kvs) path =
     leaves v (if path \<noteq> [] then path @ ''.'' @ k else k) @ leaves_items kvs path"

text \<open>
  \<^verbatim>\<open>otu.tree_l2_norm\<close>: the square root of the sum of the squares of all the leaves'
  elements. The norm of a tree with a NaN element is NaN.
\<close>

fun fl_square :: "fl \<Rightarrow> fl" where
  "fl_square (Fin a) = Fin (a\<^sup>2)"
| "fl_square PInf = PInf"
| "fl_square NInf = PInf"
| "fl_square NaN = NaN"

fun fl_sqrt :: "fl \<Rightarrow> fl" where
  "fl_sqrt (Fin a) = (if a < 0 then NaN else Fin (sqrt a))"
| "fl_sqrt PInf = PInf"
| "fl_sqrt NInf = NaN"
| "fl_sqrt NaN = NaN"

definition fl_sum :: "fl list \<Rightarrow> fl" where
  "fl_sum xs = foldl fl_add (Fin 0) xs"

definition tree_l2_norm :: "ptree \<Rightarrow> fl" where
  "tree_l2_norm t = fl_sqrt (fl_sum (map fl_square (concat (map snd (leaves t [])))))"

text \<open>
  The optimizer \<^verbatim>\<open>opt\<close> is the caller's (by default \<^verbatim>\<open>optax.lbfgs()\<close>): its
  \<^verbatim>\<open>init\<close> and \<^verbatim>\<open>update\<close> are parameters of the model, over any type \<open>'s\<close> of
  optimizer states. \<open>state_count\<close> and \<open>state_grad\<close> stand for
  \<^verbatim>\<open>otu.tree_get(state, 'count')\<close> and \<^verbatim>\<open>otu.tree_get(state, 'grad')\<close>.
  \<open>opt_update opt grad state params v\<close> is
  \<^verbatim>\<open>opt.update(grad, state, params, value=v, grad=grad, value_fn=fun)\<close>.
\<close>

record 's optimizer =
  opt_init :: "ptree \<Rightarrow> 's"
  opt_update :: "ptree \<Rightarrow> 's \<Rightarrow> ptree \<Rightarrow> fl \<Rightarrow> ptree \<times> 's"
  state_count :: "'s \<Rightarrow> nat"
  state_grad :: "'s \<Rightarrow> ptree"

text \<open>
  \<^verbatim>\<open>step\<close>, lines 127 to 135. The loss enters through
  \<^verbatim>\<open>value_and_grad_fun = optax.value_and_grad_from_state(fun)\<close>, a parameter here: the
  value and the gradient of the loss at the parameters, given the state.
\<close>

definition step ::
  "(ptree \<Rightarrow> 's \<Rightarrow> fl \<times> ptree) \<Rightarrow> 's optimizer \<Rightarrow> paramsClip \<Rightarrow> ptree \<times> 's \<Rightarrow> error + ptree \<times> 's" where
  "step value_and_grad_fun opt pc carry =
     (case carry of (params, state) \<Rightarrow>
      (case value_and_grad_fun params state of (v, g) \<Rightarrow>
       (case opt_update opt g state params v of (updates, state') \<Rightarrow>
        (case apply_updates params updates of
           Inl e \<Rightarrow> Inl e
         | Inr params' \<Rightarrow> Inr (project_params params' pc, state')))))"

text \<open>
  \<^verbatim>\<open>continuing_criterion\<close>, lines 137 to 142:
  \<^verbatim>\<open>(iter_num == 0) | ((iter_num < max_iter) & (err >= tol))\<close>. The comparison
  \<^verbatim>\<open>err >= tol\<close> is false when the norm is NaN.
\<close>

definition continuing_criterion :: "'s optimizer \<Rightarrow> int \<Rightarrow> fl \<Rightarrow> ptree \<times> 's \<Rightarrow> bool" where
  "continuing_criterion opt max_iter tol carry =
     (case carry of (_, state) \<Rightarrow>
        (let iter_num = state_count opt state;
             g = state_grad opt state;
             err = tree_l2_norm g
         in iter_num = 0 \<or> (int iter_num < max_iter \<and> fl_le tol err)))"

text \<open>
  \<^verbatim>\<open>jax.lax.while_loop(cond_fun, body_fun, init_val)\<close>. The loop need not end: the
  result is \<open>None\<close> when it runs forever, \<open>Some (Inl e)\<close> when the body raises and
  \<open>Some (Inr v)\<close> when it returns \<open>v\<close>.
\<close>

partial_function (option) while_loop ::
  "('c \<Rightarrow> bool) \<Rightarrow> ('c \<Rightarrow> error + 'c) \<Rightarrow> 'c \<Rightarrow> (error + 'c) option" where
  "while_loop cond_fun body_fun v =
     (if cond_fun v then
        (case body_fun v of Inl e \<Rightarrow> Some (Inl e) | Inr v' \<Rightarrow> while_loop cond_fun body_fun v')
      else Some (Inr v))"

definition run_opt ::
  "ptree \<Rightarrow> (ptree \<Rightarrow> 's \<Rightarrow> fl \<times> ptree) \<Rightarrow> 's optimizer \<Rightarrow> int \<Rightarrow> fl \<Rightarrow> paramsClip
     \<Rightarrow> (error + ptree \<times> 's) option" where
  "run_opt init_params value_and_grad_fun opt max_iter tol pc =
     (let init_carry = (init_params, opt_init opt init_params)
      in while_loop (continuing_criterion opt max_iter tol) (step value_and_grad_fun opt pc) init_carry)"

subsection \<open>Notions used to state the properties of the loop\<close>

text \<open>The carry after \<open>k\<close> executions of the loop body.\<close>

fun steps :: "nat \<Rightarrow> ('c \<Rightarrow> error + 'c) \<Rightarrow> 'c \<Rightarrow> error + 'c" where
  "steps 0 body_fun v = Inr v"
| "steps (Suc k) body_fun v =
     (case body_fun v of Inl e \<Rightarrow> Inl e | Inr v' \<Rightarrow> steps k body_fun v')"

definition all_within :: "fl \<Rightarrow> fl \<Rightarrow> fl list \<Rightarrow> bool" where
  "all_within lo hi xs = list_all (\<lambda>x. fl_le lo x \<and> fl_le x hi) xs"

definition all_within_or_nan :: "fl \<Rightarrow> fl \<Rightarrow> fl list \<Rightarrow> bool" where
  "all_within_or_nan lo hi xs = list_all (\<lambda>x. isnan x \<or> (fl_le lo x \<and> fl_le x hi)) xs"

text \<open>
  Every field lies within the bounds the code gives it: the alpha bounds when its name
  contains \<^verbatim>\<open>alpha\<close>, the beta bounds when its name contains \<^verbatim>\<open>beta\<close> and not
  \<^verbatim>\<open>alpha\<close>. A NaN element lies within no bounds.
\<close>

definition in_bounds :: "paramsClip \<Rightarrow> ptree \<Rightarrow> bool" where
  "in_bounds pc params =
     list_all (\<lambda>(name, x).
        (sublist ''alpha'' name \<longrightarrow> all_within (alphaMin pc) (alphaMax pc) x) \<and>
        (sublist ''beta'' name \<and> \<not> sublist ''alpha'' name \<longrightarrow> all_within (betaMin pc) (betaMax pc) x))
       (leaves params [])"

text \<open>The same for the elements that are not NaN.\<close>

definition in_bounds_or_nan :: "paramsClip \<Rightarrow> ptree \<Rightarrow> bool" where
  "in_bounds_or_nan pc params =
     list_all (\<lambda>(name, x).
        (sublist ''alpha'' name \<longrightarrow> all_within_or_nan (alphaMin pc) (alphaMax pc) x) \<and>
        (sublist ''beta'' name \<and> \<not> sublist ''alpha'' name \<longrightarrow>
           all_within_or_nan (betaMin pc) (betaMax pc) x))
       (leaves params [])"

text \<open>
  The containment as the specification words it: the alpha bounds for every name with
  \<^verbatim>\<open>alpha\<close> and the beta bounds for every name with \<^verbatim>\<open>beta\<close>.
\<close>

definition in_bounds_by_name :: "paramsClip \<Rightarrow> ptree \<Rightarrow> bool" where
  "in_bounds_by_name pc params =
     list_all (\<lambda>(name, x).
        (sublist ''alpha'' name \<longrightarrow> all_within (alphaMin pc) (alphaMax pc) x) \<and>
        (sublist ''beta'' name \<longrightarrow> all_within (betaMin pc) (betaMax pc) x))
       (leaves params [])"

text \<open>
  The stopping condition as the specification words it: the count is not 0, and the
  count has reached \<open>max_iter\<close> or the norm of the gradient is below \<open>tol\<close>.
\<close>

definition spec_stop :: "'s optimizer \<Rightarrow> int \<Rightarrow> fl \<Rightarrow> ptree \<times> 's \<Rightarrow> bool" where
  "spec_stop opt max_iter tol carry \<longleftrightarrow>
     state_count opt (snd carry) \<noteq> 0 \<and>
     (max_iter \<le> int (state_count opt (snd carry)) \<or>
      fl_less (tree_l2_norm (state_grad opt (snd carry))) tol)"

text \<open>
  What the loop relies on from the library: \<^verbatim>\<open>opt.init\<close> starts the count at 0, every
  \<^verbatim>\<open>opt.update\<close> adds one to it (as the L-BFGS state of optax does), and the updates
  computed from the gradient of the loss have the structure of the parameters, so that
  they can be applied.
\<close>

definition optimizer_ok :: "(ptree \<Rightarrow> 's \<Rightarrow> fl \<times> ptree) \<Rightarrow> 's optimizer \<Rightarrow> bool" where
  "optimizer_ok value_and_grad_fun opt \<longleftrightarrow>
     (\<forall>p. state_count opt (opt_init opt p) = 0) \<and>
     (\<forall>g s p v. state_count opt (snd (opt_update opt g s p v)) = Suc (state_count opt s)) \<and>
     (\<forall>p s. \<exists>p'. apply_updates p
          (fst (opt_update opt (snd (value_and_grad_fun p s)) s p (fst (value_and_grad_fun p s)))) = Inr p')"

subsection \<open>A concrete optimizer and three losses, for the examples\<close>

fun tree_map :: "(fl \<Rightarrow> fl) \<Rightarrow> ptree \<Rightarrow> ptree"
  and tree_map_items :: "(fl \<Rightarrow> fl) \<Rightarrow> (string \<times> ptree) list \<Rightarrow> (string \<times> ptree) list"
where
  "tree_map f (Leaf x) = Leaf (map f x)"
| "tree_map f (Dict kvs) = Dict (tree_map_items f kvs)"
| "tree_map_items f [] = []"
| "tree_map_items f ((k, v) # kvs) = (k, tree_map f v) # tree_map_items f kvs"

text \<open>The product of a finite number and a value.\<close>

fun fl_scale :: "real \<Rightarrow> fl \<Rightarrow> fl" where
  "fl_scale c (Fin a) = Fin (c * a)"
| "fl_scale c PInf = (if 0 < c then PInf else if c < 0 then NInf else NaN)"
| "fl_scale c NInf = (if 0 < c then NInf else if c < 0 then PInf else NaN)"
| "fl_scale c NaN = NaN"

text \<open>
  The loss \<open>1/2 * sum (x - 2)\<^sup>2\<close> over all parameters, with gradient \<open>x - 2\<close>; the
  constant loss 0, with gradient 0; a loss whose value and gradient are NaN everywhere;
  and gradient descent with learning rate \<open>1/2\<close>, whose state is the count and the
  gradient it was last given.
\<close>

definition quadratic_value_and_grad :: "ptree \<Rightarrow> nat \<times> ptree \<Rightarrow> fl \<times> ptree" where
  "quadratic_value_and_grad params state =
     (fl_scale (1/2)
        (fl_sum (map (\<lambda>x. fl_square (fl_add x (Fin (- 2)))) (concat (map snd (leaves params []))))),
      tree_map (\<lambda>x. fl_add x (Fin (- 2))) params)"

definition flat_value_and_grad :: "ptree \<Rightarrow> nat \<times> ptree \<Rightarrow> fl \<times> ptree" where
  "flat_value_and_grad params state = (Fin 0, tree_map (\<lambda>x. Fin 0) params)"

definition nan_value_and_grad :: "ptree \<Rightarrow> nat \<times> ptree \<Rightarrow> fl \<times> ptree" where
  "nan_value_and_grad params state = (NaN, tree_map (\<lambda>x. NaN) params)"

definition gradient_descent :: "(nat \<times> ptree) optimizer" where
  "gradient_descent =
     \<lparr>opt_init = (\<lambda>p. (0, tree_map (\<lambda>x. Fin 0) p)),
      opt_update = (\<lambda>g s p v. (tree_map (fl_scale (- 1/2)) g, (Suc (fst s), g))),
      state_count = fst,
      state_grad = snd\<rparr>"

definition unit_clip :: paramsClip where
  "unit_clip = \<lparr>alphaMin = Fin 0, alphaMax = Fin 1, betaMin = Fin 0, betaMax = Fin 1\<rparr>"

definition wide_alpha_clip :: paramsClip where
  "wide_alpha_clip = \<lparr>alphaMin = Fin 0, alphaMax = Fin 1, betaMin = Fin 0, betaMax = Fin (1/2)\<rparr>"

section \<open>Multi-start and population fits\<close>

text \<open>
  \<^verbatim>\<open>jnp.argmin\<close> on an array without NaN: the first index of the minimum.
  \<^verbatim>\<open>jnp.nanargmin\<close> replaces every NaN by plus infinity, takes \<^verbatim>\<open>argmin\<close>, and
  returns \<open>-1\<close> when every element was NaN.
\<close>

fun argmin :: "fl list \<Rightarrow> nat" where
  "argmin [] = 0"
| "argmin [x] = 0"
| "argmin (x # y # ys) =
     (let j = Suc (argmin (y # ys))
      in if fl_less ((x # y # ys) ! j) x then j else 0)"

definition nanargmin :: "fl list \<Rightarrow> int" where
  "nanargmin a =
     (let nan_mask = map isnan a;
          a' = map (\<lambda>x. if isnan x then PInf else x) a;
          res = argmin a'
      in if list_all (\<lambda>m. m) nan_mask then - 1 else int res)"

text \<open>Indexing an array: a negative index counts from the end.\<close>

definition py_index :: "'a list \<Rightarrow> int \<Rightarrow> 'a" where
  "py_index xs i = xs ! nat (if i < 0 then i + int (length xs) else i)"

text \<open>
  The argument \<^verbatim>\<open>fit_model\<close> is compared with the two fitting functions of the module;
  any other callable is a third case. The data is a tuple of four arrays for the
  shared-alpha fit and of eight (a stable and a volatile block) for the split-alpha fit.
\<close>

datatype fit_model = Fit_model_same_alpha | Fit_model_alpha_difference | Other_callable

datatype fit_data = Data4 trial_data | Data8 trial_data trial_data

text \<open>
  \<^verbatim>\<open>fit_model_same_alpha\<close> and \<^verbatim>\<open>fit_model_alpha_difference\<close> draw their start from
  the seed and run \<^verbatim>\<open>run_opt\<close> with the library's L-BFGS. What they return for given
  data and the key \<^verbatim>\<open>PRNGKey(seed)\<close> is a parameter of the model: the final
  parameters, \<open>(alpha, beta)\<close> or \<open>(alphaStable, alphaVolatile, beta)\<close>, and the final
  loss, all of them floating-point values. The final loss is the value of
  \<^verbatim>\<open>loss_RL_model\<close> at the final parameters (the sum of two such values for the
  split-alpha fit), as the floating-point arithmetic computes it.
\<close>

record fitters =
  same_alpha :: "trial_data \<Rightarrow> nat \<Rightarrow> (fl \<times> fl) \<times> fl"
  alpha_difference :: "trial_data \<Rightarrow> trial_data \<Rightarrow> nat \<Rightarrow> (fl \<times> fl \<times> fl) \<times> fl"

definition dict_get :: "(string \<times> 'a) list \<Rightarrow> string \<Rightarrow> error + 'a" where
  "dict_get d k = (case map_of d k of None \<Rightarrow> Inl KeyError | Some v \<Rightarrow> Inr v)"

text \<open>
  \<^verbatim>\<open>get_params\<close>, lines 317 to 338. \<open>params\<close> holds, under each name, the array of
  that parameter over the runs; \<open>loss\<close> is the array of the final losses.
\<close>

definition get_params ::
  "fit_model \<Rightarrow> (string \<times> fl list) list \<Rightarrow> fl list \<Rightarrow> error + (string \<times> fl) list" where
  "get_params fit_model params loss =
     (let bestFit = nanargmin loss in
      if fit_model = Fit_model_same_alpha then
        (case dict_get params ''alpha'' of Inl e \<Rightarrow> Inl e | Inr alphas \<Rightarrow>
         case dict_get params ''beta'' of Inl e \<Rightarrow> Inl e | Inr betas \<Rightarrow>
           (let bestAlpha = py_index alphas bestFit;
                bestBeta = py_index betas bestFit
            in Inr [(''alpha'', bestAlpha), (''beta'', bestBeta)]))
      else if fit_model = Fit_model_alpha_difference then
        (case dict_get params ''alphaStable'' of Inl e \<Rightarrow> Inl e | Inr alphaStables \<Rightarrow>
         case dict_get params ''alphaVolatile'' of Inl e \<Rightarrow> Inl e | Inr alphaVolatiles \<Rightarrow>
         case dict_get params ''beta'' of Inl e \<Rightarrow> Inl e | Inr betas \<Rightarrow>
           (let bestAlphaStable = py_index alphaStables bestFit;
                bestAlphaVolatile = py_index alphaVolatiles bestFit;
                bestBeta = py_index betas bestFit
            in Inr [(''alphaStable'', bestAlphaStable), (''alphaVolatile'', bestAlphaVolatile),
                    (''beta'', bestBeta)]))
      else Inl UnboundLocalError)"

text \<open>
  \<^verbatim>\<open>fit_with_multiple_initial_values\<close>, lines 289 to 340. Unpacking a tuple of the
  wrong size and any other \<^verbatim>\<open>fit_model\<close> raise \<^verbatim>\<open>ValueError\<close>; so does
  \<^verbatim>\<open>jnp.stack\<close> of the empty list of keys when \<^verbatim>\<open>nInits\<close> is 0. The vectorised
  fit runs the fit once per seed \<open>0, ..., nInits - 1\<close> on the same data.
\<close>

definition fit_with_multiple_initial_values ::
  "fitters \<Rightarrow> fit_data \<Rightarrow> nat \<Rightarrow> fit_model \<Rightarrow> error + (string \<times> fl) list" where
  "fit_with_multiple_initial_values F data nInits fit_model =
     (if fit_model = Fit_model_same_alpha then
        (case data of
           Data4 d \<Rightarrow>
             if nInits = 0 then Inl ValueError
             else
               (let runs = map (same_alpha F d) [0..<nInits];
                    params = [(''alpha'', map (\<lambda>r. fst (fst r)) runs),
                              (''beta'', map (\<lambda>r. snd (fst r)) runs)];
                    loss = map snd runs
                in get_params fit_model params loss)
         | Data8 _ _ \<Rightarrow> Inl ValueError)
      else if fit_model = Fit_model_alpha_difference then
        (case data of
           Data8 s v \<Rightarrow>
             if nInits = 0 then Inl ValueError
             else
               (let runs = map (alpha_difference F s v) [0..<nInits];
                    params = [(''alphaStable'', map (\<lambda>r. fst (fst r)) runs),
                              (''alphaVolatile'', map (\<lambda>r. fst (snd (fst r))) runs),
                              (''beta'', map (\<lambda>r. snd (snd (fst r))) runs)];
                    loss = map snd runs
                in get_params fit_model params loss)
         | Data4 _ \<Rightarrow> Inl ValueError)
      else Inl ValueError)"

text \<open>
  \<^verbatim>\<open>fit_multiple_participants\<close>, lines 361 to 363: the multi-start fit mapped over the
  subjects, whose data are the rows of the stacked arrays. The result has one
  dictionary per subject, in the order of the subjects; an exception of one fit is the
  exception of the whole call. \<^verbatim>\<open>jax.vmap\<close> traces the multi-start fit once whatever
  the number of subjects, so that another \<^verbatim>\<open>fit_model\<close> and \<^verbatim>\<open>nInits = 0\<close> raise
  \<^verbatim>\<open>ValueError\<close> for a population without subjects too.
\<close>

fun collect :: "(error + 'a) list \<Rightarrow> error + 'a list" where
  "collect [] = Inr []"
| "collect (Inl e # _) = Inl e"
| "collect (Inr x # rs) = (case collect rs of Inl e \<Rightarrow> Inl e | Inr xs \<Rightarrow> Inr (x # xs))"

definition fit_multiple_participants ::
  "fitters \<Rightarrow> fit_data list \<Rightarrow> nat \<Rightarrow> fit_model \<Rightarrow> error + (string \<times> fl) list list" where
  "fit_multiple_participants F data nInits fit_model =
     (if fit_model = Other_callable \<or> nInits = 0 then Inl ValueError
      else collect (map (\<lambda>d. fit_with_multiple_initial_values F d nInits fit_model) data))"

subsection \<open>Notions used to state the properties of the selection\<close>

text \<open>The fit is one of the two of the module and the data has its number of arrays.\<close>

definition supported :: "fit_model \<Rightarrow> fit_data \<Rightarrow> bool" where
  "supported fit_model data =
     (case (fit_model, data) of
        (Fit_model_same_alpha, Data4 _) \<Rightarrow> True
      | (Fit_model_alpha_difference, Data8 _ _) \<Rightarrow> True
      | _ \<Rightarrow> False)"

text \<open>The parameter dictionary and the loss of the run with a given seed.\<close>

definition run_params :: "fitters \<Rightarrow> fit_model \<Rightarrow> fit_data \<Rightarrow> nat \<Rightarrow> (string \<times> fl) list" where
  "run_params F fit_model data seed =
     (case (fit_model, data) of
        (Fit_model_same_alpha, Data4 d) \<Rightarrow>
          (case same_alpha F d seed of ((a, b), _) \<Rightarrow> [(''alpha'', a), (''beta'', b)])
      | (Fit_model_alpha_difference, Data8 s v) \<Rightarrow>
          (case alpha_difference F s v seed of ((a, c, b), _) \<Rightarrow>
             [(''alphaStable'', a), (''alphaVolatile'', c), (''beta'', b)])
      | _ \<Rightarrow> [])"

definition run_loss :: "fitters \<Rightarrow> fit_model \<Rightarrow> fit_data \<Rightarrow> nat \<Rightarrow> fl" where
  "run_loss F fit_model data seed =
     (case (fit_model, data) of
        (Fit_model_same_alpha, Data4 d) \<Rightarrow> snd (same_alpha F d seed)
      | (Fit_model_alpha_difference, Data8 s v) \<Rightarrow> snd (alpha_difference F s v seed)
      | _ \<Rightarrow> NaN)"

text \<open>The position in the arrays that \<^verbatim>\<open>bestFit\<close> selects.\<close>

definition chosen :: "fl list \<Rightarrow> nat" where
  "chosen loss = nat (if nanargmin loss < 0 then nanargmin loss + int (length loss) else nanargmin loss)"

text \<open>A loss as \<^verbatim>\<open>nanargmin\<close> compares it: plus infinity in the place of NaN.\<close>

definition nan_as_inf :: "fl \<Rightarrow> fl" where
  "nan_as_inf x = (if isnan x then PInf else x)"

subsection \<open>Fit results for the examples\<close>

definition degenerate_fitters :: fitters where
  "degenerate_fitters =
     \<lparr>same_alpha = (\<lambda>d seed. if seed = 0 then ((Fin (1/5), Fin (3/10)), NaN)
                              else ((Fin (7/10), Fin (4/5)), NaN)),
      alpha_difference = (\<lambda>s v seed. if seed = 0 then ((Fin (1/5), Fin (3/10), Fin (2/5)), PInf)
                                      else ((Fin (1/2), Fin (1/2), Fin (1/2)), PInf))\<rparr>"

definition example_fitters :: fitters where
  "example_fitters =
     \<lparr>same_alpha = (\<lambda>d seed. if seed = 0 then ((Fin (1/5), Fin (3/10)), NaN)
                              else if seed = 1 then ((Fin (2/5), Fin (1/2)), Fin 2)
                              else ((Fin (7/10), Fin (4/5)), Fin 1)),
      alpha_difference = (\<lambda>s v seed. ((Fin (1/2), Fin (1/2), Fin (1/2)), Fin 1))\<rparr>"

definition example_data :: trial_data where
  "example_data = ([1, 0], [10, 20], [30, 5], [0, 1])"

section \<open>Parameter recovery on a grid: \<^verbatim>\<open>run_paramterer_recovery\<close>\<close>

text \<open>
  A row of the table \<^verbatim>\<open>recoveryData\<close>, with its four columns, and the variables of
  the function while it runs: the counter, the table, the four matrices with one row
  per simulated subject, and the state of the random sources.
\<close>

record recovery_row =
  simulatedAlpha :: real
  simulatedBeta :: real
  recoveredAlpha :: fl
  recoveredBeta :: fl

record 'w recovery_state =
  counter :: nat
  recoveryData :: "recovery_row list"
  opt1RewardedMat :: "real list list"
  magOpt1Mat :: "real list list"
  magOpt2Mat :: "real list list"
  choice1Mat :: "real list list"
  rng_state :: 'w

text \<open>
  The collaborators the caller passes in. \<^verbatim>\<open>generate_schedule(trueProbability)\<close>
  draws a schedule and \<^verbatim>\<open>rng.random(n)\<close> draws \<open>n\<close> numbers: both read and advance
  a state of randomness \<open>'w\<close>. \<^verbatim>\<open>simulate_RL_model\<close> returns the belief trajectory
  and the choice probabilities of a subject with the given learning rate and inverse
  temperature.
\<close>

record 'w simulators =
  generate_schedule :: "real list \<Rightarrow> 'w \<Rightarrow> (real list \<times> real list \<times> real list) \<times> 'w"
  simulate_RL_model :: "real list \<Rightarrow> real list \<Rightarrow> real list \<Rightarrow> real \<Rightarrow> real \<Rightarrow> real list \<times> real list"
  rng_random :: "nat \<Rightarrow> 'w \<Rightarrow> real list \<times> 'w"

text \<open>\<^verbatim>\<open>(choiceProb1 > draws).astype(int)\<close>\<close>

definition binarize :: "real list \<Rightarrow> real list \<Rightarrow> real list" where
  "binarize choiceProb1 draws = map2 (\<lambda>p d. if p > d then 1 else 0) choiceProb1 draws"

text \<open>A \<^verbatim>\<open>for\<close> loop over a list, ended by the first exception of its body.\<close>

fun for_each :: "'a list \<Rightarrow> ('a \<Rightarrow> 's \<Rightarrow> error + 's) \<Rightarrow> 's \<Rightarrow> error + 's" where
  "for_each [] body s = Inr s"
| "for_each (x # xs) body s = (case body x s of Inl e \<Rightarrow> Inl e | Inr s' \<Rightarrow> for_each xs body s')"

text \<open>
  The body of the two nested loops, lines 410 to 421, for the indices \<open>alpha\<close> and
  \<open>beta\<close>. Assigning a sequence to a row of a matrix raises \<^verbatim>\<open>ValueError\<close> when
  the lengths differ, and so does comparing the choice probabilities with draws of
  another length (the broadcasting of a sequence of one element is not modelled). The
  counter stays below the number of rows, so every assignment is to an existing row.
\<close>

definition simulate_one ::
  "'w simulators \<Rightarrow> real list \<Rightarrow> real list \<Rightarrow> real list \<Rightarrow> nat \<Rightarrow> nat
     \<Rightarrow> 'w recovery_state \<Rightarrow> error + 'w recovery_state" where
  "simulate_one E simulatedAlphaRange simulatedBetaRange trueProbability alpha beta st =
     (let c = counter st; T = length trueProbability in
      case generate_schedule E trueProbability (rng_state st) of ((r, m1, m2), w1) \<Rightarrow>
      if length r \<noteq> T \<or> length m1 \<noteq> T \<or> length m2 \<noteq> T then Inl ValueError
      else
        (let rM = (opt1RewardedMat st)[c := r];
             m1M = (magOpt1Mat st)[c := m1];
             m2M = (magOpt2Mat st)[c := m2] in
         case simulate_RL_model E (rM ! c) (m1M ! c) (m2M ! c)
                (simulatedAlphaRange ! alpha) (simulatedBetaRange ! beta) of (_, choiceProb1) \<Rightarrow>
         case rng_random E T w1 of (draws, w2) \<Rightarrow>
         if length choiceProb1 \<noteq> T \<or> length draws \<noteq> T then Inl ValueError
         else
           Inr (st\<lparr>counter := c + 1,
                   recoveryData := (recoveryData st)
                     [c := (recoveryData st ! c)\<lparr>simulatedAlpha := simulatedAlphaRange ! alpha,
                                                 simulatedBeta := simulatedBetaRange ! beta\<rparr>],
                   opt1RewardedMat := rM,
                   magOpt1Mat := m1M,
                   magOpt2Mat := m2M,
                   choice1Mat := (choice1Mat st)[c := binarize choiceProb1 draws],
                   rng_state := w2\<rparr>)))"

text \<open>
  Lines 389 to 421: the table and the matrices start filled with zeros, and the loops
  run with \<open>alpha\<close> outside and \<open>beta\<close> inside.
\<close>

definition recovery_loops ::
  "'w simulators \<Rightarrow> real list \<Rightarrow> real list \<Rightarrow> real list \<Rightarrow> 'w \<Rightarrow> error + 'w recovery_state" where
  "recovery_loops E simulatedAlphaRange simulatedBetaRange trueProbability rng =
     (let nSimulatedSubjects = length simulatedAlphaRange * length simulatedBetaRange;
          zeros = replicate nSimulatedSubjects (replicate (length trueProbability) 0);
          st = \<lparr>counter = 0,
                recoveryData = replicate nSimulatedSubjects
                  \<lparr>simulatedAlpha = 0, simulatedBeta = 0, recoveredAlpha = Fin 0, recoveredBeta = Fin 0\<rparr>,
                opt1RewardedMat = zeros, magOpt1Mat = zeros, magOpt2Mat = zeros,
                choice1Mat = zeros, rng_state = rng\<rparr>
      in for_each [0..<length simulatedAlphaRange]
           (\<lambda>alpha. for_each [0..<length simulatedBetaRange]
              (\<lambda>beta. simulate_one E simulatedAlphaRange simulatedBetaRange trueProbability alpha beta))
           st)"

text \<open>
  The tuple of the four matrices, as the population fit reads it: one subject per row.
\<close>

definition stacked_data :: "'w recovery_state \<Rightarrow> fit_data list" where
  "stacked_data st =
     map (\<lambda>c. Data4 (opt1RewardedMat st ! c, magOpt1Mat st ! c, magOpt2Mat st ! c, choice1Mat st ! c))
       [0..<length (opt1RewardedMat st)]"

text \<open>
  Lines 430 and 431: the columns \<^verbatim>\<open>recoveredAlpha\<close> and \<^verbatim>\<open>recoveredBeta\<close> are
  set from the fitted parameters, row by row; a column of another length raises
  \<^verbatim>\<open>ValueError\<close>.
\<close>

definition set_recovered ::
  "recovery_row list \<Rightarrow> (string \<times> fl) list list \<Rightarrow> error + recovery_row list" where
  "set_recovered rows params =
     (if length params \<noteq> length rows then Inl ValueError
      else collect (map2 (\<lambda>row p.
             case dict_get p ''alpha'' of Inl e \<Rightarrow> Inl e | Inr a \<Rightarrow>
             case dict_get p ''beta'' of Inl e \<Rightarrow> Inl e | Inr b \<Rightarrow>
               Inr (row\<lparr>recoveredAlpha := a, recoveredBeta := b\<rparr>)) rows params))"

definition run_paramterer_recovery ::
  "fitters \<Rightarrow> 'w simulators \<Rightarrow> real list \<Rightarrow> real list \<Rightarrow> real list \<Rightarrow> 'w \<Rightarrow> nat
     \<Rightarrow> error + recovery_row list" where
  "run_paramterer_recovery F E simulatedAlphaRange simulatedBetaRange trueProbability rng nInits =
     (case recovery_loops E simulatedAlphaRange simulatedBetaRange trueProbability rng of
        Inl e \<Rightarrow> Inl e
      | Inr st \<Rightarrow>
          (case fit_multiple_participants F (stacked_data st) nInits Fit_model_same_alpha of
             Inl e \<Rightarrow> Inl e
           | Inr params \<Rightarrow> set_recovered (recoveryData st) params))"

subsection \<open>Notions used to state the properties of the recovery\<close>

text \<open>
  The interface of the collaborators: a schedule has three sequences of the length of
  \<^verbatim>\<open>trueProbability\<close>, the simulator returns one choice probability per trial, and
  \<^verbatim>\<open>rng.random(n)\<close> returns \<open>n\<close> draws.
\<close>

definition simulators_ok :: "'w simulators \<Rightarrow> real list \<Rightarrow> bool" where
  "simulators_ok E trueProbability \<longleftrightarrow>
     (\<forall>w. case generate_schedule E trueProbability w of ((r, m1, m2), _) \<Rightarrow>
            length r = length trueProbability \<and> length m1 = length trueProbability \<and>
            length m2 = length trueProbability) \<and>
     (\<forall>r m1 m2 a b. length r = length trueProbability \<longrightarrow>
            length (snd (simulate_RL_model E r m1 m2 a b)) = length trueProbability) \<and>
     (\<forall>n w. length (fst (rng_random E n w)) = n)"

text \<open>
  The state of randomness before the subject with the number \<open>c\<close> is simulated:
  every subject before it has drawn one schedule and then one sequence of numbers.
\<close>

fun rng_before :: "'w simulators \<Rightarrow> real list \<Rightarrow> 'w \<Rightarrow> nat \<Rightarrow> 'w" where
  "rng_before E trueProbability rng 0 = rng"
| "rng_before E trueProbability rng (Suc c) =
     snd (rng_random E (length trueProbability)
            (snd (generate_schedule E trueProbability (rng_before E trueProbability rng c))))"

text \<open>
  The data of the subject simulated for the grid point \<open>(c div B, c mod B)\<close>: the
  schedule with the number \<open>c\<close>, and the choices that the simulator gives on this
  schedule for the learning rate \<open>simulatedAlphaRange[c div B]\<close> and the inverse
  temperature \<open>simulatedBetaRange[c mod B]\<close>, binarized with the draws that follow the
  schedule.
\<close>

definition simulated_subject ::
  "'w simulators \<Rightarrow> real list \<Rightarrow> real list \<Rightarrow> real list \<Rightarrow> 'w \<Rightarrow> nat \<Rightarrow> trial_data" where
  "simulated_subject E simulatedAlphaRange simulatedBetaRange trueProbability rng c =
     (case generate_schedule E trueProbability (rng_before E trueProbability rng c) of
        ((r, m1, m2), w1) \<Rightarrow>
          (r, m1, m2,
           binarize (snd (simulate_RL_model E r m1 m2
                            (simulatedAlphaRange ! (c div length simulatedBetaRange))
                            (simulatedBetaRange ! (c mod length simulatedBetaRange))))
                    (fst (rng_random E (length trueProbability) w1))))"

text \<open>
  Row \<open>c\<close> belongs to the grid point \<open>(c div B, c mod B)\<close>: the table has the
  learning rate and the inverse temperature of that point, and row \<open>c\<close> of the four
  matrices is the data of the subject simulated for that point.
\<close>

definition simulated_at ::
  "'w simulators \<Rightarrow> real list \<Rightarrow> real list \<Rightarrow> real list \<Rightarrow> 'w \<Rightarrow> 'w recovery_state \<Rightarrow> nat \<Rightarrow> bool" where
  "simulated_at E simulatedAlphaRange simulatedBetaRange trueProbability rng st c \<longleftrightarrow>
     simulatedAlpha (recoveryData st ! c) = simulatedAlphaRange ! (c div length simulatedBetaRange) \<and>
     simulatedBeta (recoveryData st ! c) = simulatedBetaRange ! (c mod length simulatedBetaRange) \<and>
     (opt1RewardedMat st ! c, magOpt1Mat st ! c, magOpt2Mat st ! c, choice1Mat st ! c) =
       simulated_subject E simulatedAlphaRange simulatedBetaRange trueProbability rng c"

text \<open>What holds after \<open>k\<close> executions of the loop body.\<close>

definition loop_invariant ::
  "'w simulators \<Rightarrow> real list \<Rightarrow> real list \<Rightarrow> real list \<Rightarrow> 'w \<Rightarrow> nat \<Rightarrow> 'w recovery_state \<Rightarrow> bool" where
  "loop_invariant E simulatedAlphaRange simulatedBetaRange trueProbability rng k st \<longleftrightarrow>
     counter st = k \<and>
     rng_state st = rng_before E trueProbability rng k \<and>
     length (recoveryData st) = length simulatedAlphaRange * length simulatedBetaRange \<and>
     length (opt1RewardedMat st) = length simulatedAlphaRange * length simulatedBetaRange \<and>
     length (magOpt1Mat st) = length simulatedAlphaRange * length simulatedBetaRange \<and>
     length (magOpt2Mat st) = length simulatedAlphaRange * length simulatedBetaRange \<and>
     length (choice1Mat st) = length simulatedAlphaRange * length simulatedBetaRange \<and>
     (\<forall>c < k. simulated_at E simulatedAlphaRange simulatedBetaRange trueProbability rng st c)"

subsection \<open>Collaborators for the example\<close>

text \<open>
  A schedule generator that writes the state of randomness into the magnitudes of
  option 2, a simulator whose choice probability is the inverse temperature, draws that
  are all \<open>1/10\<close>, and a fit that returns the sums of the choices and of the
  magnitudes of option 2 it was given.
\<close>

definition example_simulators :: "nat simulators" where
  "example_simulators =
     \<lparr>generate_schedule = (\<lambda>p w. ((map (\<lambda>x. if x > 1/2 then 1 else 0) p, map (\<lambda>x. 10) p,
                                     map (\<lambda>x. real w) p), Suc w)),
      simulate_RL_model = (\<lambda>r m1 m2 a b. (map (\<lambda>x. a) r, map (\<lambda>x. b) r)),
      rng_random = (\<lambda>n w. (replicate n (1/10), Suc w))\<rparr>"

definition echo_fitters :: fitters where
  "echo_fitters =
     \<lparr>same_alpha = (\<lambda>d seed. case d of (r, m1, m2, ch) \<Rightarrow>
                       ((Fin (sum_list ch), Fin (sum_list m2)), Fin (real seed))),
      alpha_difference = (\<lambda>s v seed. ((Fin 0, Fin 0, Fin 0), Fin (real seed)))\<rparr>"

section \<open>Properties of the belief trajectory\<close>

lemma length_snd_scan: "length (snd (scan f c xs)) = length xs"
proof (induction xs arbitrary: c)
  case Nil
  then show ?case by simp
next
  case (Cons x xs)
  obtain c' y where f: "f c x = (c', y)" by (cases "f c x")
  obtain d ys where s: "scan f c' xs = (d, ys)" by (cases "scan f c' xs")
  have "length ys = length xs" using Cons.IH [of c'] s by simp
  then show ?case by (simp add: f s)
qed

lemma scan_upt_belief:
  "i < length r \<Longrightarrow>
   p # butlast (snd (scan (compute_probOpt1 r a) p [i..<length r])) = belief_entering a p (drop i r)"
proof (induction "length r - i" arbitrary: i p)
  case 0
  then show ?case by simp
next
  case (Suc k)
  let ?f = "compute_probOpt1 r a"
  let ?p' = "p + a * (r ! i - p)"
  have upt: "[i..<length r] = i # [Suc i..<length r]"
    using Suc.prems by (simp add: upt_conv_Cons)
  have dr: "drop i r = r ! i # drop (Suc i) r"
    using Suc.prems by (simp add: Cons_nth_drop_Suc)
  have sc: "snd (scan ?f p [i..<length r]) = ?p' # snd (scan ?f ?p' [Suc i..<length r])"
    by (simp add: upt compute_probOpt1_def Let_def split: prod.splits)
  show ?case
  proof (cases "Suc i < length r")
    case True
    have ne: "snd (scan ?f ?p' [Suc i..<length r]) \<noteq> []"
      using True length_snd_scan [of ?f ?p' "[Suc i..<length r]"] by auto
    have "k = length r - Suc i" using Suc.hyps(2) by simp
    from Suc.hyps(1) [OF this True]
    have "?p' # butlast (snd (scan ?f ?p' [Suc i..<length r])) = belief_entering a ?p' (drop (Suc i) r)" .
    then show ?thesis using ne by (simp add: sc dr)
  next
    case False
    then have "Suc i = length r" using Suc.prems by simp
    then show ?thesis by (simp add: sc dr)
  qed
qed

lemma probOpt1_belief_entering:
  "r \<noteq> [] \<Longrightarrow> probOpt1 r a p0 = belief_entering a p0 r"
  using scan_upt_belief [of 0 r p0 a] by (simp add: probOpt1_def)

lemma length_belief_entering: "length (belief_entering a p r) = length r"
  by (induction r arbitrary: p) auto

lemma length_probOpt1: "r \<noteq> [] \<Longrightarrow> length (probOpt1 r a p0) = length r"
  by (simp add: probOpt1_belief_entering length_belief_entering)

lemma belief_entering_0: "r \<noteq> [] \<Longrightarrow> belief_entering a p r ! 0 = p"
  by (cases r) auto

lemma belief_entering_Suc:
  "Suc t < length r \<Longrightarrow>
   belief_entering a p r ! Suc t = belief_entering a p r ! t + a * (r ! t - belief_entering a p r ! t)"
proof (induction r arbitrary: p t)
  case Nil
  then show ?case by simp
next
  case (Cons x xs)
  show ?case
  proof (cases t)
    case 0
    then show ?thesis using Cons.prems by (cases xs) auto
  next
    case (Suc t')
    then show ?thesis using Cons.prems Cons.IH [of t' "p + a * (x - p)"] by simp
  qed
qed

lemma belief_entering_take:
  "length r' = length r \<Longrightarrow> t < length r \<Longrightarrow> take t r' = take t r \<Longrightarrow>
   belief_entering a p r' ! t = belief_entering a p r ! t"
proof (induction r arbitrary: p t r')
  case Nil
  then show ?case by simp
next
  case (Cons x xs)
  then obtain y ys where r': "r' = y # ys" by (cases r') auto
  show ?case
  proof (cases t)
    case 0
    then show ?thesis by (simp add: r')
  next
    case (Suc t')
    then have "y = x" "take t' ys = take t' xs" "length ys = length xs" "t' < length xs"
      using Cons.prems by (auto simp: r')
    then show ?thesis using Cons.IH [of ys t' "p + a * (x - p)"] by (simp add: r' Suc)
  qed
qed

lemma belief_entering_snoc:
  "belief_entering a p (xs @ [u]) = belief_entering a p (xs @ [v])"
  by (induction xs arbitrary: p) auto

lemma probOpt1_snoc:
  "probOpt1 (rewarded @ [u]) a p0 = probOpt1 (rewarded @ [v]) a p0"
  by (simp add: probOpt1_belief_entering belief_entering_snoc [of a p0 rewarded u v])

lemma belief_entering_unit:
  "0 \<le> a \<Longrightarrow> a \<le> 1 \<Longrightarrow> 0 \<le> p \<Longrightarrow> p \<le> 1 \<Longrightarrow> set r \<subseteq> {0, 1} \<Longrightarrow>
   q \<in> set (belief_entering a p r) \<Longrightarrow> 0 \<le> q \<and> q \<le> 1"
proof (induction r arbitrary: p)
  case Nil
  then show ?case by simp
next
  case (Cons x xs)
  let ?p' = "p + a * (x - p)"
  have x: "x = 0 \<or> x = 1" using Cons.prems(5) by auto
  have conv: "?p' = (1 - a) * p + a * x" by (simp add: algebra_simps)
  have lo: "0 \<le> ?p'"
    unfolding conv using x Cons.prems(1-4) by (auto intro!: add_nonneg_nonneg mult_nonneg_nonneg)
  have "(1 - a) * p \<le> (1 - a) * 1" using Cons.prems(1-4) by (intro mult_left_mono) auto
  moreover have "a * x \<le> a * 1" using x Cons.prems(1) by (intro mult_left_mono) auto
  ultimately have hi: "?p' \<le> 1" unfolding conv by (simp add: algebra_simps)
  from Cons.prems(6) have "q = p \<or> q \<in> set (belief_entering a ?p' xs)" by simp
  then show ?case
  proof
    assume "q = p" then show ?thesis using Cons.prems(3,4) by simp
  next
    assume "q \<in> set (belief_entering a ?p' xs)"
    then show ?thesis using Cons.IH [OF Cons.prems(1,2) lo hi] Cons.prems(5) by simp
  qed
qed

text \<open>
  Claim C3. As the specification words it, the trajectory would be read off a belief
  sequence with \<open>belief[t] = belief[t-1] + alpha * (rewarded1[t-1] - belief[t-1])\<close> and
  \<open>probOpt1[t] = belief[t-1]\<close>. No belief sequence does that for the outcomes
  \<open>[1, 0, 0]\<close> with \<open>alpha = p0 = 1/2\<close>: the code computes \<open>[1/2, 3/4, 3/8]\<close>, so
  \<open>belief[0] = 3/4\<close>, the recurrence gives \<open>belief[1] = 7/8\<close>, and \<open>probOpt1[2] = 3/8\<close>.
\<close>

theorem spec_lagged_recurrence_counterexample:
  "\<not> (\<exists>belief. spec_lagged_recurrence [1, 0, 0] (1/2) (1/2) belief
          (probOpt1 [1, 0, 0] (1/2) (1/2)))"
proof
  assume "\<exists>belief. spec_lagged_recurrence [1, 0, 0] (1/2) (1/2) belief
          (probOpt1 [1, 0, 0] (1/2) (1/2))"
  then obtain belief where
    s: "spec_lagged_recurrence [1, 0, 0] (1/2) (1/2) belief (probOpt1 [1, 0, 0] (1/2) (1/2))"
    by blast
  have P: "probOpt1 [1, 0, 0] (1/2) (1/2) = [1/2, 3/4, 3/8]"
    by (simp add: probOpt1_def compute_probOpt1_def Let_def upt_rec)
  have m: "(1::nat) \<in> {1..<length [1::real, 0, 0]}" "(2::nat) \<in> {1..<length [1::real, 0, 0]}"
    by simp_all
  from s have all: "\<forall>t \<in> {1..<length [1::real, 0, 0]}.
        belief t = belief (t - 1) + 1/2 * ([1, 0, 0] ! (t - 1) - belief (t - 1)) \<and>
        [1/2, 3/4, 3/8::real] ! t = belief (t - 1)"
    unfolding spec_lagged_recurrence_def P by blast
  from bspec [OF all m(1)] have 1: "[1/2, 3/4, 3/8::real] ! 1 = belief 0"
    and 2: "belief 1 = belief 0 + 1/2 * ([1, 0, 0] ! 0 - belief 0)"
    by simp_all
  from bspec [OF all m(2)] have 3: "[1/2, 3/4, 3/8::real] ! 2 = belief 1"
    by simp
  from 1 have "belief 0 = 3/4" by simp
  with 2 have "belief 1 = 7/8" by simp
  with 3 show False by simp
qed

text \<open>
  Claim C3, as the code has it. For a non-empty outcome sequence the trajectory has one
  belief per trial, starts with \<open>p0\<close>, and each later belief is the one before it,
  updated with the outcome of the trial before: \<open>probOpt1[t] = probOpt1[t-1] + alpha *
  (rewarded1[t-1] - probOpt1[t-1])\<close>. The belief entering trial \<open>t\<close> is the same for any
  two outcome sequences that agree before trial \<open>t\<close>: it does not depend on the
  outcome of trial \<open>t\<close> or of a later trial.
\<close>

theorem probOpt1_recurrence:
  assumes "rewarded1 \<noteq> []"
  shows "length (probOpt1 rewarded1 a p0) = length rewarded1 \<and>
         probOpt1 rewarded1 a p0 ! 0 = p0 \<and>
         (\<forall>t. 1 \<le> t \<and> t < length rewarded1 \<longrightarrow>
            probOpt1 rewarded1 a p0 ! t =
              probOpt1 rewarded1 a p0 ! (t - 1)
                + a * (rewarded1 ! (t - 1) - probOpt1 rewarded1 a p0 ! (t - 1))) \<and>
         (\<forall>t r'. t < length rewarded1 \<and> length r' = length rewarded1 \<and>
            take t r' = take t rewarded1 \<longrightarrow>
            probOpt1 r' a p0 ! t = probOpt1 rewarded1 a p0 ! t)"
proof -
  have rec: "probOpt1 rewarded1 a p0 ! t =
              probOpt1 rewarded1 a p0 ! (t - 1)
                + a * (rewarded1 ! (t - 1) - probOpt1 rewarded1 a p0 ! (t - 1))"
    if t1: "1 \<le> t" and t2: "t < length rewarded1" for t
  proof -
    obtain s where s: "t = Suc s" using t1 by (cases t) auto
    show ?thesis
      using belief_entering_Suc [of s rewarded1 a p0] t2 assms
      by (simp add: s probOpt1_belief_entering)
  qed
  have ind: "probOpt1 r' a p0 ! t = probOpt1 rewarded1 a p0 ! t"
    if "t < length rewarded1" "length r' = length rewarded1" "take t r' = take t rewarded1"
    for t r'
  proof -
    have "r' \<noteq> []" using that(2) assms by auto
    then show ?thesis
      using belief_entering_take [OF that(2) that(1) that(3)] assms
      by (simp add: probOpt1_belief_entering)
  qed
  have l: "length (probOpt1 rewarded1 a p0) = length rewarded1"
    using assms by (rule length_probOpt1)
  have z: "probOpt1 rewarded1 a p0 ! 0 = p0"
    using assms by (simp add: probOpt1_belief_entering belief_entering_0)
  show ?thesis using l z rec ind by blast
qed

theorem probOpt1_recurrence_witness:
  "[1, 0, 0::real] \<noteq> [] \<and>
   length (probOpt1 [1, 0, 0] (1/2) (1/2)) = 3 \<and>
   probOpt1 [1, 0, 0] (1/2) (1/2) ! 0 = 1/2 \<and>
   probOpt1 [1, 0, 0] (1/2) (1/2) ! 2 =
     probOpt1 [1, 0, 0] (1/2) (1/2) ! 1 + 1/2 * ([1, 0, 0] ! 1 - probOpt1 [1, 0, 0] (1/2) (1/2) ! 1) \<and>
   probOpt1 [1, 0, 1] (1/2) (1/2) ! 2 = probOpt1 [1, 0, 0] (1/2) (1/2) ! 2"
proof -
  have ne: "[1, 0, 0::real] \<noteq> []" by simp
  note r = probOpt1_recurrence [OF ne, of "1/2" "1/2"]
  have a: "length (probOpt1 [1, 0, 0] (1/2) (1/2)) = 3"
    using r [THEN conjunct1] by simp
  have b: "probOpt1 [1, 0, 0] (1/2) (1/2) ! 0 = 1/2"
    by (rule r [THEN conjunct2, THEN conjunct1])
  have c: "probOpt1 [1, 0, 0] (1/2) (1/2) ! 2 =
     probOpt1 [1, 0, 0] (1/2) (1/2) ! 1 + 1/2 * ([1, 0, 0] ! 1 - probOpt1 [1, 0, 0] (1/2) (1/2) ! 1)"
  proof -
    have t: "(1::nat) \<le> 2 \<and> 2 < length [1, 0, 0::real]" by simp
    have e: "(2::nat) - 1 = 1" by simp
    from r [THEN conjunct2, THEN conjunct2, THEN conjunct1, rule_format, OF t]
    show ?thesis unfolding e .
  qed
  have d: "probOpt1 [1, 0, 1] (1/2) (1/2) ! 2 = probOpt1 [1, 0, 0] (1/2) (1/2) ! 2"
  proof -
    have t: "2 < length [1, 0, 0::real] \<and> length [1, 0, 1::real] = length [1, 0, 0::real] \<and>
          take 2 [1, 0, 1::real] = take 2 [1, 0, 0::real]" by simp
    from r [THEN conjunct2, THEN conjunct2, THEN conjunct2, rule_format, OF t]
    show ?thesis .
  qed
  show ?thesis using ne a b c d by blast
qed

text \<open>
  Claim C7. With a learning rate and a starting probability in \<open>[0, 1]\<close> and outcomes
  that are 0 or 1, every element of the belief trajectory lies in \<open>[0, 1]\<close>.
\<close>

theorem probOpt1_unit_interval:
  assumes "0 \<le> a" "a \<le> 1" "0 \<le> p0" "p0 \<le> 1" "set rewarded1 \<subseteq> {0, 1}"
  shows "\<forall>q \<in> set (probOpt1 rewarded1 a p0). 0 \<le> q \<and> q \<le> 1"
proof (cases "rewarded1 = []")
  case True
  then show ?thesis using assms by (simp add: probOpt1_def)
next
  case False
  then show ?thesis
    using belief_entering_unit [OF assms] by (simp add: probOpt1_belief_entering)
qed

theorem probOpt1_unit_interval_witness:
  "(0::real) \<le> 1/4 \<and> (1/4::real) \<le> 1 \<and> (0::real) \<le> 1/2 \<and> (1/2::real) \<le> 1 \<and>
   set [1, 0, 1::real] \<subseteq> {0, 1} \<and>
   probOpt1 [1, 0, 1] (1/4) (1/2) = [1/2, 5/8, 15/32] \<and>
   0 \<le> probOpt1 [1, 0, 1] (1/4) (1/2) ! 2 \<and> probOpt1 [1, 0, 1] (1/4) (1/2) ! 2 \<le> 1"
proof -
  have h: "(0::real) \<le> 1/4" "(1/4::real) \<le> 1" "(0::real) \<le> 1/2" "(1/2::real) \<le> 1"
    "set [1, 0, 1::real] \<subseteq> {0, 1}" by simp_all
  have P: "probOpt1 [1, 0, 1] (1/4) (1/2) = [1/2, 5/8, 15/32]"
    by (simp add: probOpt1_def compute_probOpt1_def Let_def upt_rec)
  have "probOpt1 [1, 0, 1] (1/4) (1/2) ! 2 \<in> set (probOpt1 [1, 0, 1] (1/4) (1/2))"
    unfolding P by simp
  with probOpt1_unit_interval [OF h]
  have "0 \<le> probOpt1 [1, 0, 1] (1/4) (1/2) ! 2 \<and> probOpt1 [1, 0, 1] (1/4) (1/2) ! 2 \<le> 1"
    by blast
  then show ?thesis using h P by blast
qed

section \<open>Properties of the loss\<close>

lemma map2_nth_upt:
  "length xs = n \<Longrightarrow> length ys = n \<Longrightarrow> map2 f xs ys = map (\<lambda>i. f (xs ! i) (ys ! i)) [0..<n]"
  by (auto simp: list_eq_iff_nth_eq)

lemma log_sigmoid_sigmoid: "log_sigmoid x = ln (sigmoid x)"
proof -
  have pos: "0 < 1 + exp (- x)" by (simp add: add_pos_pos)
  have "ln (1 / (1 + exp (- x))) = - ln (1 + exp (- x))"
    using pos by (simp add: ln_div)
  then show ?thesis by (simp add: log_sigmoid_def sigmoid_def)
qed

lemma one_minus_sigmoid: "1 - sigmoid x = sigmoid (- x)"
proof -
  have pos: "0 < 1 + exp (- x)" "0 < 1 + exp x" by (simp_all add: add_pos_pos)
  have e: "exp (- x) * exp x = 1" by (simp add: exp_minus_inverse flip: exp_add)
  have "1 - 1 / (1 + exp (- x)) = exp (- x) / (1 + exp (- x))"
    using pos by (simp add: field_simps)
  also have "\<dots> = 1 / (1 + exp x)"
    using pos e by (simp add: field_simps)
  finally show ?thesis by (simp add: sigmoid_def)
qed

lemma sigmoid_binary_cross_entropy_spec:
  "sigmoid_binary_cross_entropy x y = binary_cross_entropy (sigmoid x) y"
  by (simp add: sigmoid_binary_cross_entropy_def binary_cross_entropy_def Let_def
      log_sigmoid_sigmoid one_minus_sigmoid algebra_simps)

lemma log_sigmoid_nonpos: "log_sigmoid x \<le> 0"
proof -
  have "1 \<le> 1 + exp (- x)" by simp
  then have "0 \<le> ln (1 + exp (- x))" by (rule ln_ge_zero)
  then show ?thesis by (simp add: log_sigmoid_def)
qed

lemma sigmoid_binary_cross_entropy_nonneg:
  "y = 0 \<or> y = 1 \<Longrightarrow> 0 \<le> sigmoid_binary_cross_entropy x y"
  using log_sigmoid_nonpos [of x] log_sigmoid_nonpos [of "- x"]
  by (auto simp: sigmoid_binary_cross_entropy_def Let_def)

lemma sigmoid_binary_cross_entropy_flip:
  "sigmoid_binary_cross_entropy (- x) (1 - y) = sigmoid_binary_cross_entropy x y"
  by (simp add: sigmoid_binary_cross_entropy_def Let_def algebra_simps)

lemma mean_nonneg: "(\<And>x. x \<in> set xs \<Longrightarrow> 0 \<le> x) \<Longrightarrow> 0 \<le> mean xs"
  by (simp add: mean_def sum_list_nonneg)

lemma tree_get_0_alpha: "tree_get_0 [(''alpha'', [a]), (''beta'', [b])] ''alpha'' = Inr a"
  by (simp add: tree_get_0_def)

lemma tree_get_0_beta: "tree_get_0 [(''alpha'', [a]), (''beta'', [b])] ''beta'' = Inr b"
  by (simp add: tree_get_0_def)

lemma loss_RL_model_unfold:
  "loss_RL_model (r, m1, m2, ch) [(''alpha'', [a]), (''beta'', [b])] p0 U =
     (if r = [] then Inl IndexError
      else Inr (mean (map2 sigmoid_binary_cross_entropy
       (map (\<lambda>d. b * d) (map2 (-) (map2 U m1 (probOpt1 r a p0))
           (map2 U m2 (map (\<lambda>q. 1 - q) (probOpt1 r a p0))))) ch)))"
  unfolding loss_RL_model_def Let_def tree_get_0_alpha tree_get_0_beta
  by (simp only: prod.case sum.case)

lemma map2_flip:
  "map2 sigmoid_binary_cross_entropy (map (\<lambda>d. - b * d) ds) (map (\<lambda>c. 1 - c) ch)
      = map2 sigmoid_binary_cross_entropy (map (\<lambda>d. b * d) ds) ch"
  by (simp add: list_eq_iff_nth_eq sigmoid_binary_cross_entropy_flip)

text \<open>
  Claim C4. For four sequences of the same length \<open>T \<ge> 1\<close> with choices that are 0 or
  1, the parameters \<open>{alpha: [a], beta: [b]}\<close>, a starting probability and a utility
  function \<open>U\<close>, \<^verbatim>\<open>loss_RL_model\<close> returns a number, which is the mean over the trials
  \<open>t\<close> of the binary cross-entropy between
  \<open>sigmoid (b * (U (mag1[t], probOpt1[t]) - U (mag2[t], 1 - probOpt1[t])))\<close> and
  \<open>choice1[t]\<close>, and which is not negative. The function is a function of its arguments
  only: it has no state to change.
\<close>

theorem loss_RL_model_mean_bce:
  assumes len: "length opt1Rewarded = T" "length magOpt1 = T" "length magOpt2 = T"
      "length choice1 = T"
    and T: "1 \<le> T"
    and ch: "set choice1 \<subseteq> {0, 1}"
  shows "\<exists>loss.
      loss_RL_model (opt1Rewarded, magOpt1, magOpt2, choice1)
        [(''alpha'', [a]), (''beta'', [b])] startingProb U = Inr loss \<and>
      loss = mean (map (\<lambda>t. binary_cross_entropy
                (sigmoid (b * (U (magOpt1 ! t) (probOpt1 opt1Rewarded a startingProb ! t)
                             - U (magOpt2 ! t) (1 - probOpt1 opt1Rewarded a startingProb ! t))))
                (choice1 ! t)) [0..<T]) \<and>
      0 \<le> loss"
proof -
  let ?P = "probOpt1 opt1Rewarded a startingProb"
  have ne: "opt1Rewarded \<noteq> []" using len(1) T by auto
  have lP: "length ?P = T" using length_probOpt1 [OF ne] len(1) by simp
  let ?u1 = "map2 U magOpt1 ?P"
  let ?u2 = "map2 U magOpt2 (map (\<lambda>q. 1 - q) ?P)"
  let ?lg = "map (\<lambda>d. b * d) (map2 (-) ?u1 ?u2)"
  let ?ls = "map2 sigmoid_binary_cross_entropy ?lg choice1"
  have run: "loss_RL_model (opt1Rewarded, magOpt1, magOpt2, choice1)
        [(''alpha'', [a]), (''beta'', [b])] startingProb U = Inr (mean ?ls)"
    unfolding loss_RL_model_unfold using ne by (rule if_not_P)
  have u1: "?u1 = map (\<lambda>t. U (magOpt1 ! t) (?P ! t)) [0..<T]"
    using len(2) lP by (rule map2_nth_upt)
  have u2: "?u2 = map (\<lambda>t. U (magOpt2 ! t) (1 - ?P ! t)) [0..<T]"
    using map2_nth_upt [of magOpt2 T "map (\<lambda>q. 1 - q) ?P" U] len(3) lP by simp
  have lg: "?lg = map (\<lambda>t. b * (U (magOpt1 ! t) (?P ! t) - U (magOpt2 ! t) (1 - ?P ! t))) [0..<T]"
    unfolding u1 u2 by (simp add: list_eq_iff_nth_eq)
  have llg: "length ?lg = T" unfolding lg by simp
  have ls: "?ls = map (\<lambda>t. binary_cross_entropy
                (sigmoid (b * (U (magOpt1 ! t) (?P ! t) - U (magOpt2 ! t) (1 - ?P ! t))))
                (choice1 ! t)) [0..<T]"
    using map2_nth_upt [OF llg len(4), of sigmoid_binary_cross_entropy]
    unfolding lg by (simp add: sigmoid_binary_cross_entropy_spec)
  have nn: "0 \<le> mean ?ls"
  proof (rule mean_nonneg)
    fix x assume "x \<in> set ?ls"
    then obtain l c where "x = sigmoid_binary_cross_entropy l c" "c \<in> set choice1"
      by (auto dest: set_zip_rightD)
    then show "0 \<le> x" using ch sigmoid_binary_cross_entropy_nonneg [of c l] by auto
  qed
  show ?thesis using run ls nn by simp
qed

theorem loss_RL_model_mean_bce_witness:
  "length [1, 0::real] = 2 \<and> length [10, 20::real] = 2 \<and> length [30, 5::real] = 2 \<and>
   length [0, 1::real] = 2 \<and> (1::nat) \<le> 2 \<and> set [0, 1::real] \<subseteq> {0, 1} \<and>
   (\<exists>loss. loss_RL_model ([1, 0], [10, 20], [30, 5], [0, 1])
        [(''alpha'', [1/2]), (''beta'', [1/10])] (1/2) utility_fun = Inr loss \<and> 0 \<le> loss)"
proof -
  have h: "length [1, 0::real] = 2" "length [10, 20::real] = 2" "length [30, 5::real] = 2"
    "length [0, 1::real] = 2" "(1::nat) \<le> 2" "set [0, 1::real] \<subseteq> {0, 1}"
    by simp_all
  from loss_RL_model_mean_bce [OF h, of "1/2" "1/10" "1/2" utility_fun]
  have "\<exists>loss. loss_RL_model ([1, 0], [10, 20], [30, 5], [0, 1])
        [(''alpha'', [1/2]), (''beta'', [1/10])] (1/2) utility_fun = Inr loss \<and> 0 \<le> loss"
    by blast
  then show ?thesis using h by blast
qed

text \<open>
  Claim C8. The loss does not change when the sign of \<open>beta\<close> is flipped and every
  choice \<open>c\<close> is replaced by \<open>1 - c\<close>, whatever the data, the learning rate, the
  starting probability and the utility function are.
\<close>

theorem loss_RL_model_flip:
  "loss_RL_model (opt1Rewarded, magOpt1, magOpt2, choice1)
       [(''alpha'', [a]), (''beta'', [b])] startingProb U =
   loss_RL_model (opt1Rewarded, magOpt1, magOpt2, map (\<lambda>c. 1 - c) choice1)
       [(''alpha'', [a]), (''beta'', [- b])] startingProb U"
  unfolding loss_RL_model_unfold by (simp only: map2_flip)

text \<open>
  Claim C10. Two inputs that differ only in the last element of \<open>rewarded1\<close> have the
  same loss, for the same parameters, starting probability and utility function.
\<close>

theorem loss_RL_model_last_outcome:
  "loss_RL_model (rewarded @ [u], magOpt1, magOpt2, choice1) params startingProb U =
   loss_RL_model (rewarded @ [v], magOpt1, magOpt2, choice1) params startingProb U"
proof -
  have ne: "(rewarded @ [w] = []) = False" for w :: real by simp
  show ?thesis
    unfolding loss_RL_model_def Let_def prod.case ne if_False
    by (simp only: probOpt1_snoc [of rewarded u _ startingProb v])
qed

section \<open>Properties of the optimizer loop\<close>

lemma leaves_apply_clip:
  "leaves (apply_clip pc t path) path = map (\<lambda>(n, x). (n, clip_param pc x n)) (leaves t path)"
  "leaves_items (apply_clip_items pc kvs path) path =
     map (\<lambda>(n, x). (n, clip_param pc x n)) (leaves_items kvs path)"
  by (induction pc t path and pc kvs path rule: apply_clip_apply_clip_items.induct) simp_all

lemma apply_updates_shape:
  "apply_updates p u = Inr q \<Longrightarrow>
     map (\<lambda>(n, x). (n, length x)) (leaves q path) = map (\<lambda>(n, x). (n, length x)) (leaves p path)"
  "apply_updates_items ps us = Inr qs \<Longrightarrow>
     map (\<lambda>(n, x). (n, length x)) (leaves_items qs path) =
     map (\<lambda>(n, x). (n, length x)) (leaves_items ps path)"
proof (induction p u and ps us arbitrary: q path and qs path
    rule: apply_updates_apply_updates_items.induct)
  case (1 p u)
  then show ?case by (auto split: if_splits)
next
  case (2 ps us)
  then show ?case by (auto split: sum.splits)
next
  case (6 k p ps k' u us)
  from "6.prems" obtain q' qs' where
    q: "k = k'" "apply_updates p u = Inr q'" "apply_updates_items ps us = Inr qs'"
      "qs = (k, q') # qs'"
    by (auto split: if_splits sum.splits)
  show ?case
    using "6.IH"(1) [OF q(1) q(2)] "6.IH"(2) [OF q(1) q(2) q(3)] by (simp add: q(4))
qed simp_all

lemma fl_le_trans: "fl_le a b \<Longrightarrow> fl_le b c \<Longrightarrow> fl_le a c"
  by (cases a; cases b; cases c) auto

lemma not_fl_le_iff: "\<not> fl_le a b \<longleftrightarrow> fl_less b a \<or> isnan a \<or> isnan b"
  by (cases a; cases b) auto

lemma clip_in_range:
  "fl_le lo hi \<Longrightarrow> isnan (clip x lo hi) \<or> (fl_le lo (clip x lo hi) \<and> fl_le (clip x lo hi) hi)"
  by (cases lo; cases hi; cases x) (auto simp: clip_def fl_max_def fl_min_def)

lemma all_within_or_nan_clip:
  "xs = [] \<or> fl_le lo hi \<Longrightarrow> all_within_or_nan lo hi (map (\<lambda>x. clip x lo hi) xs)"
  using clip_in_range by (auto simp: all_within_or_nan_def list_all_iff)

lemma all_within_nonempty: "all_within lo hi xs \<Longrightarrow> xs \<noteq> [] \<Longrightarrow> fl_le lo hi"
  by (cases xs) (auto simp: all_within_def intro: fl_le_trans)

lemma all_within_imp_or_nan: "all_within lo hi xs \<Longrightarrow> all_within_or_nan lo hi xs"
  by (auto simp: all_within_def all_within_or_nan_def list_all_iff)

lemma in_bounds_imp_or_nan: "in_bounds pc p \<Longrightarrow> in_bounds_or_nan pc p"
  by (auto simp: in_bounds_def in_bounds_or_nan_def list_all_iff all_within_imp_or_nan)

lemma project_params_shape:
  "map (\<lambda>(n, x). (n, length x)) (leaves (project_params q pc) []) =
   map (\<lambda>(n, x). (n, length x)) (leaves q [])"
  by (auto simp: project_params_def leaves_apply_clip clip_param_def)

lemma in_bounds_project_params:
  assumes b: "in_bounds pc p"
    and sh: "map (\<lambda>(n, x). (n, length x)) (leaves q []) = map (\<lambda>(n, x). (n, length x)) (leaves p [])"
  shows "in_bounds_or_nan pc (project_params q pc)"
proof -
  have len: "length (leaves q []) = length (leaves p [])"
    using sh by (metis length_map)
  have "(sublist ''alpha'' n \<longrightarrow> all_within_or_nan (alphaMin pc) (alphaMax pc) (clip_param pc x n)) \<and>
        (sublist ''beta'' n \<and> \<not> sublist ''alpha'' n \<longrightarrow>
           all_within_or_nan (betaMin pc) (betaMax pc) (clip_param pc x n))"
    if m: "(n, x) \<in> set (leaves q [])" for n x
  proof -
    from m obtain i where i: "i < length (leaves q [])" "leaves q [] ! i = (n, x)"
      by (auto simp: in_set_conv_nth)
    obtain n' y where y: "leaves p [] ! i = (n', y)" by (cases "leaves p [] ! i")
    have "map (\<lambda>(n, x). (n, length x)) (leaves q []) ! i = map (\<lambda>(n, x). (n, length x)) (leaves p []) ! i"
      using sh by simp
    then have eq: "n' = n" "length y = length x" using i len y by simp_all
    have ym: "(n, y) \<in> set (leaves p [])" using i(1) len y eq(1) by (metis nth_mem)
    have by_alpha: "sublist ''alpha'' n \<longrightarrow> all_within (alphaMin pc) (alphaMax pc) y"
      and by_beta: "sublist ''beta'' n \<and> \<not> sublist ''alpha'' n \<longrightarrow>
                      all_within (betaMin pc) (betaMax pc) y"
      using b ym by (auto simp: in_bounds_def list_all_iff)
    have e: "x = [] \<longleftrightarrow> y = []" using eq(2) by auto
    show ?thesis
    proof (intro conjI impI)
      assume a: "sublist ''alpha'' n"
      then have "x = [] \<or> fl_le (alphaMin pc) (alphaMax pc)"
        using by_alpha all_within_nonempty e by blast
      then show "all_within_or_nan (alphaMin pc) (alphaMax pc) (clip_param pc x n)"
        using a by (simp add: clip_param_def all_within_or_nan_clip)
    next
      assume a: "sublist ''beta'' n \<and> \<not> sublist ''alpha'' n"
      then have "x = [] \<or> fl_le (betaMin pc) (betaMax pc)"
        using by_beta all_within_nonempty e by blast
      then show "all_within_or_nan (betaMin pc) (betaMax pc) (clip_param pc x n)"
        using a by (simp add: clip_param_def all_within_or_nan_clip)
    qed
  qed
  then show ?thesis
    by (auto simp: in_bounds_or_nan_def project_params_def leaves_apply_clip list_all_iff)
qed

lemma step_in_bounds:
  assumes "step vg opt pc c = Inr c'" and "in_bounds pc p0"
    and "map (\<lambda>(n, x). (n, length x)) (leaves (fst c) []) = map (\<lambda>(n, x). (n, length x)) (leaves p0 [])"
  shows "in_bounds_or_nan pc (fst c') \<and>
         map (\<lambda>(n, x). (n, length x)) (leaves (fst c') []) = map (\<lambda>(n, x). (n, length x)) (leaves p0 [])"
proof -
  obtain p s where c: "c = (p, s)" by (cases c)
  obtain v g where vg: "vg p s = (v, g)" by (cases "vg p s")
  obtain u s' where u: "opt_update opt g s p v = (u, s')" by (cases "opt_update opt g s p v")
  from assms(1) obtain q where q: "apply_updates p u = Inr q" "c' = (project_params q pc, s')"
    by (auto simp: step_def c vg u split: sum.splits)
  have sh: "map (\<lambda>(n, x). (n, length x)) (leaves q []) = map (\<lambda>(n, x). (n, length x)) (leaves p0 [])"
    using apply_updates_shape(1) [OF q(1), of "[]"] assms(3) by (simp add: c)
  show ?thesis
    using in_bounds_project_params [OF assms(2) sh] project_params_shape [of q pc] sh
    by (simp add: q(2))
qed

lemma steps_in_bounds:
  "steps k (step vg opt pc) c = Inr c' \<Longrightarrow> in_bounds pc p0 \<Longrightarrow>
   map (\<lambda>(n, x). (n, length x)) (leaves (fst c) []) = map (\<lambda>(n, x). (n, length x)) (leaves p0 []) \<Longrightarrow>
   in_bounds_or_nan pc (fst c) \<Longrightarrow> in_bounds_or_nan pc (fst c')"
proof (induction k arbitrary: c)
  case 0
  then show ?case by simp
next
  case (Suc k)
  from Suc.prems(1) obtain d where d: "step vg opt pc c = Inr d" "steps k (step vg opt pc) d = Inr c'"
    by (auto split: sum.splits)
  note s = step_in_bounds [OF d(1) Suc.prems(2) Suc.prems(3)]
  show ?case using Suc.IH [OF d(2) Suc.prems(2) s [THEN conjunct2] s [THEN conjunct1]] .
qed

lemma step_total:
  assumes "optimizer_ok vg opt"
  shows "\<exists>c'. step vg opt pc c = Inr c' \<and> state_count opt (snd c') = Suc (state_count opt (snd c))"
proof -
  obtain p s where c: "c = (p, s)" by (cases c)
  obtain v g where vg: "vg p s = (v, g)" by (cases "vg p s")
  obtain u s' where u: "opt_update opt g s p v = (u, s')" by (cases "opt_update opt g s p v")
  from assms obtain q where "apply_updates p
          (fst (opt_update opt (snd (vg p s)) s p (fst (vg p s)))) = Inr q"
    unfolding optimizer_ok_def by blast
  then have q: "apply_updates p u = Inr q" by (simp add: vg u)
  have "state_count opt (snd (opt_update opt g s p v)) = Suc (state_count opt s)"
    using assms unfolding optimizer_ok_def by blast
  then have "state_count opt s' = Suc (state_count opt s)" by (simp add: u)
  then show ?thesis by (simp add: step_def c vg u q)
qed

lemma steps_total:
  assumes "optimizer_ok vg opt"
  shows "\<exists>c'. steps k (step vg opt pc) c = Inr c' \<and>
              state_count opt (snd c') = state_count opt (snd c) + k"
proof (induction k arbitrary: c)
  case 0
  then show ?case by simp
next
  case (Suc k)
  from step_total [OF assms, of pc c] obtain d where
    d: "step vg opt pc c = Inr d" "state_count opt (snd d) = Suc (state_count opt (snd c))"
    by blast
  from Suc [of d] obtain c' where
    "steps k (step vg opt pc) d = Inr c'" "state_count opt (snd c') = state_count opt (snd d) + k"
    by blast
  then show ?case using d by simp
qed

lemma while_loop_steps:
  "steps k body c = Inr c' \<Longrightarrow> \<not> cond_fun c' \<Longrightarrow>
   (\<forall>j < k. \<exists>d. steps j body c = Inr d \<and> cond_fun d) \<Longrightarrow>
   while_loop cond_fun body c = Some (Inr c')"
proof (induction k arbitrary: c)
  case 0
  then show ?case by (simp add: while_loop.simps)
next
  case (Suc k)
  from Suc.prems(3) have c0: "cond_fun c" by force
  from Suc.prems(1) obtain d where d: "body c = Inr d" "steps k body d = Inr c'"
    by (auto split: sum.splits)
  have "\<forall>j < k. \<exists>e. steps j body d = Inr e \<and> cond_fun e"
  proof (intro allI impI)
    fix j assume "j < k"
    then have "Suc j < Suc k" by simp
    with Suc.prems(3) obtain e where "steps (Suc j) body c = Inr e \<and> cond_fun e" by blast
    then show "\<exists>e. steps j body d = Inr e \<and> cond_fun e" using d(1) by simp
  qed
  from Suc.IH [OF d(2) Suc.prems(2) this] show ?case
    using c0 d(1) by (subst while_loop.simps) simp
qed

lemma continuing_criterion_iff:
  "continuing_criterion opt max_iter tol carry \<longleftrightarrow>
     state_count opt (snd carry) = 0 \<or>
     (int (state_count opt (snd carry)) < max_iter \<and>
      fl_le tol (tree_l2_norm (state_grad opt (snd carry))))"
  by (cases carry) (simp add: continuing_criterion_def Let_def)

lemma run_opt_steps:
  assumes ok: "optimizer_ok vg opt"
  shows "\<exists>k final. 1 \<le> k \<and> int k \<le> max 1 max_iter \<and>
      run_opt init_params vg opt max_iter tol pc = Some (Inr final) \<and>
      steps k (step vg opt pc) (init_params, opt_init opt init_params) = Inr final \<and>
      state_count opt (snd final) = k \<and>
      \<not> continuing_criterion opt max_iter tol final \<and>
      (\<forall>j < k. \<exists>c. steps j (step vg opt pc) (init_params, opt_init opt init_params) = Inr c \<and>
                   continuing_criterion opt max_iter tol c)"
proof -
  let ?c0 = "(init_params, opt_init opt init_params)"
  let ?body = "step vg opt pc"
  let ?cond = "continuing_criterion opt max_iter tol"
  have z: "state_count opt (snd ?c0) = 0" using ok unfolding optimizer_ok_def by simp
  have at: "\<exists>c. steps k ?body ?c0 = Inr c \<and> state_count opt (snd c) = k" for k
    using steps_total [OF ok, of k pc ?c0] z by simp
  let ?P = "\<lambda>k. \<exists>c. steps k ?body ?c0 = Inr c \<and> \<not> ?cond c"
  let ?K = "nat (max 1 max_iter)"
  have PK: "?P ?K"
  proof -
    from at [of ?K] obtain c where c: "steps ?K ?body ?c0 = Inr c" "state_count opt (snd c) = ?K"
      by blast
    have "\<not> ?cond c" unfolding continuing_criterion_iff c(2) by auto
    then show ?thesis using c(1) by blast
  qed
  define k where "k = (LEAST k. ?P k)"
  have Pk: "?P k" unfolding k_def using PK by (rule LeastI)
  have kle: "k \<le> ?K" unfolding k_def using PK by (rule Least_le)
  have before: "\<not> ?P j" if "j < k" for j using that unfolding k_def by (rule not_less_Least)
  from Pk obtain final where f: "steps k ?body ?c0 = Inr final" "\<not> ?cond final" by blast
  have cnt: "state_count opt (snd final) = k" using at [of k] f(1) by auto
  have c0: "?cond ?c0" unfolding continuing_criterion_iff z by simp
  have k1: "1 \<le> k"
  proof (rule ccontr)
    assume "\<not> 1 \<le> k"
    then have "k = 0" by simp
    then show False using f c0 by simp
  qed
  have inv: "\<forall>j < k. \<exists>c. steps j ?body ?c0 = Inr c \<and> ?cond c"
  proof (intro allI impI)
    fix j assume j: "j < k"
    from at [of j] obtain c where c: "steps j ?body ?c0 = Inr c" by blast
    then have "?cond c" using before [OF j] by blast
    then show "\<exists>c. steps j ?body ?c0 = Inr c \<and> ?cond c" using c by blast
  qed
  have run: "run_opt init_params vg opt max_iter tol pc = Some (Inr final)"
    unfolding run_opt_def Let_def by (rule while_loop_steps [OF f(1) f(2) inv])
  have "int k \<le> max 1 max_iter" using kle by linarith
  then show ?thesis using k1 run f cnt inv by blast
qed

lemma tree_map_comp:
  "tree_map f (tree_map g t) = tree_map (f \<circ> g) t"
  "tree_map_items f (tree_map_items g kvs) = tree_map_items (f \<circ> g) kvs"
  by (induction g t and g kvs rule: tree_map_tree_map_items.induct) simp_all

lemma apply_updates_tree_map:
  "apply_updates t (tree_map f t) = Inr (tree_map (\<lambda>x. fl_add x (f x)) t)"
  "apply_updates_items kvs (tree_map_items f kvs) = Inr (tree_map_items (\<lambda>x. fl_add x (f x)) kvs)"
proof (induction f t and f kvs rule: tree_map_tree_map_items.induct)
  case (1 f x)
  then show ?case by (simp add: zip_map2 map_idI list_eq_iff_nth_eq)
qed simp_all

lemma gradient_descent_quadratic_ok: "optimizer_ok quadratic_value_and_grad gradient_descent"
  by (simp add: optimizer_ok_def gradient_descent_def quadratic_value_and_grad_def
      tree_map_comp apply_updates_tree_map)

lemma gradient_descent_flat_ok: "optimizer_ok flat_value_and_grad gradient_descent"
  by (simp add: optimizer_ok_def gradient_descent_def flat_value_and_grad_def
      tree_map_comp apply_updates_tree_map)

lemma gradient_descent_nan_ok: "optimizer_ok nan_value_and_grad gradient_descent"
  by (simp add: optimizer_ok_def gradient_descent_def nan_value_and_grad_def
      tree_map_comp apply_updates_tree_map)

text \<open>
  Claim C1, as the code has it. With an optimizer that counts its updates and whose
  updates fit the parameters, and initial parameters within their bounds, \<^verbatim>\<open>run_opt\<close>
  returns, and in the dictionary it returns every element that is not NaN lies within
  \<open>[alphaMin, alphaMax]\<close> when the name of its field contains \<^verbatim>\<open>alpha\<close>, and within
  \<open>[betaMin, betaMax]\<close> when the name contains \<^verbatim>\<open>beta\<close> and not \<^verbatim>\<open>alpha\<close>. The
  same holds for the parameters after any number of iterations, for every loss,
  \<open>max_iter\<close>, \<open>tol\<close> and bound specification.
\<close>

theorem run_opt_in_bounds:
  assumes "optimizer_ok vg opt" and "in_bounds pc init_params"
  shows "(\<exists>params state. run_opt init_params vg opt max_iter tol pc = Some (Inr (params, state)) \<and>
            in_bounds_or_nan pc params) \<and>
         (\<forall>k c. steps k (step vg opt pc) (init_params, opt_init opt init_params) = Inr c \<longrightarrow>
            in_bounds_or_nan pc (fst c))"
proof -
  let ?c0 = "(init_params, opt_init opt init_params)"
  have each: "in_bounds_or_nan pc (fst c)" if "steps k (step vg opt pc) ?c0 = Inr c" for k c
    using steps_in_bounds [OF that assms(2)] in_bounds_imp_or_nan [OF assms(2)] by simp
  from run_opt_steps [OF assms(1), of max_iter init_params tol pc] obtain k final where
    f: "run_opt init_params vg opt max_iter tol pc = Some (Inr final)"
      "steps k (step vg opt pc) ?c0 = Inr final"
    by blast
  obtain params state where ps: "final = (params, state)" by (cases final)
  have "in_bounds_or_nan pc params" using each [OF f(2)] ps by simp
  then show ?thesis using f(1) ps each by blast
qed

text \<open>
  An instance: gradient descent on the quadratic loss from \<open>{alpha: [1/2], beta: [1/4]}\<close>
  with the bounds \<open>[0, 1]\<close>, two iterations.
\<close>

theorem run_opt_in_bounds_witness:
  "optimizer_ok quadratic_value_and_grad gradient_descent \<and>
   in_bounds unit_clip (Dict [(''alpha'', Leaf [Fin (1/2)]), (''beta'', Leaf [Fin (1/4)])]) \<and>
   run_opt (Dict [(''alpha'', Leaf [Fin (1/2)]), (''beta'', Leaf [Fin (1/4)])])
     quadratic_value_and_grad gradient_descent 2 (Fin 0) unit_clip =
    Some (Inr (Dict [(''alpha'', Leaf [Fin 1]), (''beta'', Leaf [Fin 1])],
               (2, Dict [(''alpha'', Leaf [Fin (- 1)]), (''beta'', Leaf [Fin (- 1)])]))) \<and>
   in_bounds_or_nan unit_clip (Dict [(''alpha'', Leaf [Fin 1]), (''beta'', Leaf [Fin 1])])"
proof -
  let ?init = "Dict [(''alpha'', Leaf [Fin (1/2)]), (''beta'', Leaf [Fin (1/4)])]"
  have b: "in_bounds unit_clip ?init"
    by (simp add: in_bounds_def all_within_def unit_clip_def sublist_code)
  have r: "run_opt ?init quadratic_value_and_grad gradient_descent 2 (Fin 0) unit_clip =
    Some (Inr (Dict [(''alpha'', Leaf [Fin 1]), (''beta'', Leaf [Fin 1])],
               (2, Dict [(''alpha'', Leaf [Fin (- 1)]), (''beta'', Leaf [Fin (- 1)])])))"
    by (simp add: run_opt_def while_loop.simps continuing_criterion_def step_def Let_def
        gradient_descent_def quadratic_value_and_grad_def unit_clip_def project_params_def
        clip_param_def clip_def fl_max_def fl_min_def sublist_code tree_l2_norm_def fl_sum_def
        power2_eq_square)
  from run_opt_in_bounds [OF gradient_descent_quadratic_ok b, of 2 "Fin 0", THEN conjunct1]
  have "in_bounds_or_nan unit_clip (Dict [(''alpha'', Leaf [Fin 1]), (''beta'', Leaf [Fin 1])])"
    unfolding r by simp
  then show ?thesis using gradient_descent_quadratic_ok b r by blast
qed

text \<open>
  Claim C1, as the specification words it, asks for every field whose name contains
  \<^verbatim>\<open>beta\<close> to lie within the beta bounds, for every loss. Two runs from parameters
  within their bounds end outside them. A field named \<^verbatim>\<open>alphabeta\<close> is clipped to
  the alpha bounds only: with the alpha bounds \<open>[0, 1]\<close> and the beta bounds
  \<open>[0, 1/2]\<close> it starts at \<open>1/4\<close>, within both, and one step of gradient descent
  on the quadratic loss moves it to \<open>9/8\<close>, which is clipped to 1. And a loss whose
  gradient is NaN makes the updated parameters NaN, which the clip leaves NaN: the
  fields \<^verbatim>\<open>alpha\<close> and \<^verbatim>\<open>beta\<close> start at \<open>1/2\<close> and \<open>1/4\<close> and are returned as
  NaN.
\<close>

theorem run_opt_in_bounds_by_name_counterexample:
  "in_bounds_by_name wide_alpha_clip (Dict [(''alphabeta'', Leaf [Fin (1/4)])]) \<and>
   run_opt (Dict [(''alphabeta'', Leaf [Fin (1/4)])]) quadratic_value_and_grad
     gradient_descent 1 (Fin (1/1000)) wide_alpha_clip =
    Some (Inr (Dict [(''alphabeta'', Leaf [Fin 1])], (1, Dict [(''alphabeta'', Leaf [Fin (- 7/4)])]))) \<and>
   sublist ''beta'' ''alphabeta'' \<and>
   \<not> in_bounds_by_name wide_alpha_clip (Dict [(''alphabeta'', Leaf [Fin 1])]) \<and>
   in_bounds_by_name unit_clip (Dict [(''alpha'', Leaf [Fin (1/2)]), (''beta'', Leaf [Fin (1/4)])]) \<and>
   run_opt (Dict [(''alpha'', Leaf [Fin (1/2)]), (''beta'', Leaf [Fin (1/4)])]) nan_value_and_grad
     gradient_descent 100 (Fin (1/1000)) unit_clip =
    Some (Inr (Dict [(''alpha'', Leaf [NaN]), (''beta'', Leaf [NaN])],
               (1, Dict [(''alpha'', Leaf [NaN]), (''beta'', Leaf [NaN])]))) \<and>
   \<not> in_bounds_by_name unit_clip (Dict [(''alpha'', Leaf [NaN]), (''beta'', Leaf [NaN])])"
proof -
  have 1: "in_bounds_by_name wide_alpha_clip (Dict [(''alphabeta'', Leaf [Fin (1/4)])])"
    by (simp add: in_bounds_by_name_def all_within_def wide_alpha_clip_def sublist_code)
  have 2: "run_opt (Dict [(''alphabeta'', Leaf [Fin (1/4)])]) quadratic_value_and_grad
     gradient_descent 1 (Fin (1/1000)) wide_alpha_clip =
    Some (Inr (Dict [(''alphabeta'', Leaf [Fin 1])], (1, Dict [(''alphabeta'', Leaf [Fin (- 7/4)])])))"
    by (simp add: run_opt_def while_loop.simps continuing_criterion_def step_def Let_def
        gradient_descent_def quadratic_value_and_grad_def wide_alpha_clip_def project_params_def
        clip_param_def clip_def fl_max_def fl_min_def sublist_code tree_l2_norm_def fl_sum_def)
  have 3: "sublist ''beta'' ''alphabeta''" by (simp add: sublist_code)
  have 4: "\<not> in_bounds_by_name wide_alpha_clip (Dict [(''alphabeta'', Leaf [Fin 1])])"
    by (simp add: in_bounds_by_name_def all_within_def wide_alpha_clip_def sublist_code)
  have 5: "in_bounds_by_name unit_clip (Dict [(''alpha'', Leaf [Fin (1/2)]), (''beta'', Leaf [Fin (1/4)])])"
    by (simp add: in_bounds_by_name_def all_within_def unit_clip_def sublist_code)
  have 6: "run_opt (Dict [(''alpha'', Leaf [Fin (1/2)]), (''beta'', Leaf [Fin (1/4)])]) nan_value_and_grad
     gradient_descent 100 (Fin (1/1000)) unit_clip =
    Some (Inr (Dict [(''alpha'', Leaf [NaN]), (''beta'', Leaf [NaN])],
               (1, Dict [(''alpha'', Leaf [NaN]), (''beta'', Leaf [NaN])])))"
    by (simp add: run_opt_def while_loop.simps continuing_criterion_def step_def Let_def
        gradient_descent_def nan_value_and_grad_def unit_clip_def project_params_def
        clip_param_def clip_def fl_max_def fl_min_def sublist_code tree_l2_norm_def fl_sum_def)
  have 7: "\<not> in_bounds_by_name unit_clip (Dict [(''alpha'', Leaf [NaN]), (''beta'', Leaf [NaN])])"
    by (simp add: in_bounds_by_name_def all_within_def unit_clip_def sublist_code)
  show ?thesis using 1 2 3 4 5 6 7 by blast
qed

text \<open>
  Claim C2, as the code has it. The loop continues exactly when the count is 0, or the
  count is below \<open>max_iter\<close> and \<^verbatim>\<open>err >= tol\<close> holds for the norm of the gradient; it
  stops exactly when the count is not 0 and the count has reached \<open>max_iter\<close>, or the
  norm is below \<open>tol\<close>, or the norm or \<open>tol\<close> is NaN. With an optimizer that counts
  its updates and whose updates fit the parameters, \<^verbatim>\<open>run_opt\<close> returns after \<open>k\<close>
  executions of the loop body, where \<open>1 \<le> k \<le> max 1 max_iter\<close>; \<open>k\<close> is also the
  final count.
\<close>

theorem run_opt_continuing_criterion:
  assumes "optimizer_ok vg opt"
  shows "(\<forall>carry. continuing_criterion opt max_iter tol carry \<longleftrightarrow>
            state_count opt (snd carry) = 0 \<or>
            (int (state_count opt (snd carry)) < max_iter \<and>
             fl_le tol (tree_l2_norm (state_grad opt (snd carry))))) \<and>
         (\<forall>carry. \<not> continuing_criterion opt max_iter tol carry \<longleftrightarrow>
            state_count opt (snd carry) \<noteq> 0 \<and>
            (max_iter \<le> int (state_count opt (snd carry)) \<or>
             fl_less (tree_l2_norm (state_grad opt (snd carry))) tol \<or>
             isnan (tree_l2_norm (state_grad opt (snd carry))) \<or> isnan tol)) \<and>
         (\<exists>k final. 1 \<le> k \<and> int k \<le> max 1 max_iter \<and>
            run_opt init_params vg opt max_iter tol pc = Some (Inr final) \<and>
            steps k (step vg opt pc) (init_params, opt_init opt init_params) = Inr final \<and>
            state_count opt (snd final) = k \<and>
            \<not> continuing_criterion opt max_iter tol final \<and>
            (\<forall>j < k. \<exists>c. steps j (step vg opt pc) (init_params, opt_init opt init_params) = Inr c \<and>
                         continuing_criterion opt max_iter tol c))"
proof -
  have 1: "\<forall>carry. continuing_criterion opt max_iter tol carry \<longleftrightarrow>
            state_count opt (snd carry) = 0 \<or>
            (int (state_count opt (snd carry)) < max_iter \<and>
             fl_le tol (tree_l2_norm (state_grad opt (snd carry))))"
    by (simp add: continuing_criterion_iff)
  have 2: "\<forall>carry. \<not> continuing_criterion opt max_iter tol carry \<longleftrightarrow>
            state_count opt (snd carry) \<noteq> 0 \<and>
            (max_iter \<le> int (state_count opt (snd carry)) \<or>
             fl_less (tree_l2_norm (state_grad opt (snd carry))) tol \<or>
             isnan (tree_l2_norm (state_grad opt (snd carry))) \<or> isnan tol)"
    unfolding continuing_criterion_iff using not_fl_le_iff by auto
  show ?thesis using 1 2 run_opt_steps [OF assms, of max_iter init_params tol pc] by blast
qed

text \<open>
  An instance: on the constant loss the gradient norm is 0, below \<open>tol\<close>, from the
  start; one step is taken all the same, and then the loop stops.
\<close>

theorem run_opt_continuing_criterion_witness:
  "optimizer_ok flat_value_and_grad gradient_descent \<and>
   fl_less (tree_l2_norm (state_grad gradient_descent
      (opt_init gradient_descent (Dict [(''alpha'', Leaf [Fin (1/2)]), (''beta'', Leaf [Fin (1/4)])]))))
     (Fin (1/1000)) \<and>
   run_opt (Dict [(''alpha'', Leaf [Fin (1/2)]), (''beta'', Leaf [Fin (1/4)])]) flat_value_and_grad
     gradient_descent 100 (Fin (1/1000)) unit_clip =
    Some (Inr (Dict [(''alpha'', Leaf [Fin (1/2)]), (''beta'', Leaf [Fin (1/4)])],
               (1, Dict [(''alpha'', Leaf [Fin 0]), (''beta'', Leaf [Fin 0])]))) \<and>
   (\<exists>k final. 1 \<le> k \<and> int k \<le> max 1 100 \<and>
      run_opt (Dict [(''alpha'', Leaf [Fin (1/2)]), (''beta'', Leaf [Fin (1/4)])]) flat_value_and_grad
        gradient_descent 100 (Fin (1/1000)) unit_clip = Some (Inr final) \<and>
      state_count gradient_descent (snd final) = k)"
proof -
  let ?init = "Dict [(''alpha'', Leaf [Fin (1/2)]), (''beta'', Leaf [Fin (1/4)])]"
  have n: "fl_less (tree_l2_norm (state_grad gradient_descent (opt_init gradient_descent ?init)))
             (Fin (1/1000))"
    by (simp add: gradient_descent_def tree_l2_norm_def fl_sum_def)
  have r: "run_opt ?init flat_value_and_grad gradient_descent 100 (Fin (1/1000)) unit_clip =
    Some (Inr (Dict [(''alpha'', Leaf [Fin (1/2)]), (''beta'', Leaf [Fin (1/4)])],
               (1, Dict [(''alpha'', Leaf [Fin 0]), (''beta'', Leaf [Fin 0])])))"
    by (simp add: run_opt_def while_loop.simps continuing_criterion_def step_def Let_def
        gradient_descent_def flat_value_and_grad_def unit_clip_def project_params_def
        clip_param_def clip_def fl_max_def fl_min_def sublist_code tree_l2_norm_def fl_sum_def)
  from run_opt_continuing_criterion [OF gradient_descent_flat_ok, of 100 "Fin (1/1000)" ?init unit_clip,
      THEN conjunct2, THEN conjunct2]
  have e: "\<exists>k final. 1 \<le> k \<and> int k \<le> max 1 100 \<and>
      run_opt ?init flat_value_and_grad gradient_descent 100 (Fin (1/1000)) unit_clip = Some (Inr final) \<and>
      state_count gradient_descent (snd final) = k"
    by blast
  show ?thesis using gradient_descent_flat_ok n r e by blast
qed

text \<open>
  Claim C2, as the specification words it, has the loop stop only when the count has
  reached \<open>max_iter\<close> or the norm is below \<open>tol\<close>. With a loss whose gradient is NaN
  the norm after the first step is NaN: the count is 1, below \<open>max_iter = 100\<close>, and
  the norm is not below \<open>tol\<close>, yet \<^verbatim>\<open>err >= tol\<close> is false and the loop stops.
\<close>

theorem run_opt_nan_norm_counterexample:
  "run_opt (Dict [(''alpha'', Leaf [Fin (1/2)]), (''beta'', Leaf [Fin (1/4)])]) nan_value_and_grad
     gradient_descent 100 (Fin (1/1000)) unit_clip =
    Some (Inr (Dict [(''alpha'', Leaf [NaN]), (''beta'', Leaf [NaN])],
               (1, Dict [(''alpha'', Leaf [NaN]), (''beta'', Leaf [NaN])]))) \<and>
   tree_l2_norm (state_grad gradient_descent (1, Dict [(''alpha'', Leaf [NaN]), (''beta'', Leaf [NaN])])) = NaN \<and>
   \<not> continuing_criterion gradient_descent 100 (Fin (1/1000))
       (Dict [(''alpha'', Leaf [NaN]), (''beta'', Leaf [NaN])],
        (1, Dict [(''alpha'', Leaf [NaN]), (''beta'', Leaf [NaN])])) \<and>
   \<not> spec_stop gradient_descent 100 (Fin (1/1000))
       (Dict [(''alpha'', Leaf [NaN]), (''beta'', Leaf [NaN])],
        (1, Dict [(''alpha'', Leaf [NaN]), (''beta'', Leaf [NaN])]))"
proof -
  have 1: "run_opt (Dict [(''alpha'', Leaf [Fin (1/2)]), (''beta'', Leaf [Fin (1/4)])]) nan_value_and_grad
     gradient_descent 100 (Fin (1/1000)) unit_clip =
    Some (Inr (Dict [(''alpha'', Leaf [NaN]), (''beta'', Leaf [NaN])],
               (1, Dict [(''alpha'', Leaf [NaN]), (''beta'', Leaf [NaN])])))"
    by (simp add: run_opt_def while_loop.simps continuing_criterion_def step_def Let_def
        gradient_descent_def nan_value_and_grad_def unit_clip_def project_params_def
        clip_param_def clip_def fl_max_def fl_min_def sublist_code tree_l2_norm_def fl_sum_def)
  have 2: "tree_l2_norm (state_grad gradient_descent
             (1, Dict [(''alpha'', Leaf [NaN]), (''beta'', Leaf [NaN])])) = NaN"
    by (simp add: gradient_descent_def tree_l2_norm_def fl_sum_def)
  have 3: "\<not> continuing_criterion gradient_descent 100 (Fin (1/1000))
       (Dict [(''alpha'', Leaf [NaN]), (''beta'', Leaf [NaN])],
        (1, Dict [(''alpha'', Leaf [NaN]), (''beta'', Leaf [NaN])]))"
    by (simp add: continuing_criterion_def Let_def gradient_descent_def tree_l2_norm_def fl_sum_def)
  have 4: "\<not> spec_stop gradient_descent 100 (Fin (1/1000))
       (Dict [(''alpha'', Leaf [NaN]), (''beta'', Leaf [NaN])],
        (1, Dict [(''alpha'', Leaf [NaN]), (''beta'', Leaf [NaN])]))"
    by (simp add: spec_stop_def gradient_descent_def tree_l2_norm_def fl_sum_def)
  show ?thesis using 1 2 3 4 by blast
qed

section \<open>Properties of the selection among the runs\<close>

lemma fl_less_irrefl: "\<not> fl_less x x"
  by (cases x) auto

lemma fl_less_trans: "fl_less x y \<Longrightarrow> fl_less y z \<Longrightarrow> fl_less x z"
  by (cases x; cases y; cases z) auto

lemma fl_less_asym: "fl_less x y \<Longrightarrow> \<not> fl_less y x"
  by (cases x; cases y) auto

lemma fl_not_less_trans:
  "\<not> isnan y \<Longrightarrow> \<not> fl_less x y \<Longrightarrow> \<not> fl_less y z \<Longrightarrow> \<not> fl_less x z"
  by (cases x; cases y; cases z) auto

lemma argmin_less: "a \<noteq> [] \<Longrightarrow> argmin a < length a"
  by (induction a rule: argmin.induct) (auto simp: Let_def)

lemma argmin_min:
  "\<forall>x \<in> set a. \<not> isnan x \<Longrightarrow> i < length a \<Longrightarrow> \<not> fl_less (a ! i) (a ! argmin a)"
proof (induction a arbitrary: i rule: argmin.induct)
  case 1
  then show ?case by simp
next
  case (2 x)
  then show ?case by (simp add: fl_less_irrefl)
next
  case (3 x y ys)
  let ?j = "argmin (y # ys)"
  let ?m = "(y # ys) ! ?j"
  have nn: "\<forall>x \<in> set (y # ys). \<not> isnan x" using "3.prems"(1) by simp
  have jl: "?j < length (y # ys)" by (rule argmin_less) simp
  have mn: "\<not> isnan ?m" using nn jl nth_mem by blast
  have IH: "k < length (y # ys) \<Longrightarrow> \<not> fl_less ((y # ys) ! k) ?m" for k
    using "3.IH" [OF nn] by simp
  show ?case
  proof (cases "fl_less ?m x")
    case True
    then have am: "argmin (x # y # ys) = Suc ?j" by (simp add: Let_def)
    show ?thesis
    proof (cases i)
      case 0
      then show ?thesis using True am fl_less_asym by simp
    next
      case (Suc k)
      then show ?thesis using IH [of k] "3.prems"(2) am by simp
    qed
  next
    case False
    then have am: "argmin (x # y # ys) = 0" by (simp add: Let_def)
    show ?thesis
    proof (cases i)
      case 0
      then show ?thesis using am fl_less_irrefl by simp
    next
      case (Suc k)
      have "\<not> fl_less ((y # ys) ! k) x"
        using fl_not_less_trans [OF mn IH [of k] False] "3.prems"(2) Suc by simp
      then show ?thesis using am Suc by simp
    qed
  qed
qed

lemma argmin_first:
  "i < argmin a \<Longrightarrow> fl_less (a ! argmin a) (a ! i)"
proof (induction a arbitrary: i rule: argmin.induct)
  case 1
  then show ?case by simp
next
  case (2 x)
  then show ?case by simp
next
  case (3 x y ys)
  let ?j = "argmin (y # ys)"
  let ?m = "(y # ys) ! ?j"
  show ?case
  proof (cases "fl_less ?m x")
    case True
    then have am: "argmin (x # y # ys) = Suc ?j" by (simp add: Let_def)
    show ?thesis
    proof (cases i)
      case 0
      then show ?thesis using True am by simp
    next
      case (Suc k)
      then show ?thesis using "3.IH" [of k] "3.prems" am by simp
    qed
  next
    case False
    then have "argmin (x # y # ys) = 0" by (simp add: Let_def)
    then show ?thesis using "3.prems" by simp
  qed
qed


lemma nanargmin_all_nan:
  "\<forall>x \<in> set loss. isnan x \<Longrightarrow> nanargmin loss = - 1"
  by (simp add: nanargmin_def Let_def list_all_iff)

lemma nanargmin_some:
  "\<exists>x \<in> set loss. \<not> isnan x \<Longrightarrow>
   nanargmin loss = int (argmin (map (\<lambda>x. if isnan x then PInf else x) loss))"
  by (auto simp: nanargmin_def Let_def list_all_iff)

lemma chosen_all_nan:
  "\<forall>x \<in> set loss. isnan x \<Longrightarrow> loss \<noteq> [] \<Longrightarrow> chosen loss = length loss - 1"
  by (cases loss) (auto simp: chosen_def nanargmin_all_nan)

lemma chosen_some:
  "\<exists>x \<in> set loss. \<not> isnan x \<Longrightarrow>
   chosen loss = argmin (map (\<lambda>x. if isnan x then PInf else x) loss)"
  by (simp add: chosen_def nanargmin_some)

lemma chosen_less: "loss \<noteq> [] \<Longrightarrow> chosen loss < length loss"
proof (cases "\<forall>x \<in> set loss. isnan x")
  case True
  assume "loss \<noteq> []"
  then show ?thesis using chosen_all_nan [OF True] by (cases loss) auto
next
  case False
  assume ne: "loss \<noteq> []"
  from False have "\<exists>x \<in> set loss. \<not> isnan x" by blast
  from chosen_some [OF this] show ?thesis
    using argmin_less [of "map (\<lambda>x. if isnan x then PInf else x) loss"] ne by simp
qed

lemma chosen_best:
  assumes fin: "\<exists>x \<in> set loss. isfinite x" and ninf: "NInf \<notin> set loss"
  shows "isfinite (loss ! chosen loss) \<and>
         (\<forall>i < length loss. \<not> fl_less (loss ! i) (loss ! chosen loss)) \<and>
         (\<forall>i < chosen loss. isnan (loss ! i) \<or> fl_less (loss ! chosen loss) (loss ! i))"
proof -
  let ?r = "\<lambda>x. if isnan x then PInf else x"
  let ?a = "map ?r loss"
  let ?j = "chosen loss"
  from fin obtain x where x: "x \<in> set loss" "isfinite x" by blast
  have xn: "\<not> isnan x" using x(2) by (cases x) auto
  have j: "?j = argmin ?a" using chosen_some x(1) xn by blast
  have ne: "loss \<noteq> []" using x(1) by auto
  have jl: "?j < length loss" using chosen_less [OF ne] .
  have nn: "\<forall>y \<in> set ?a. \<not> isnan y" by auto
  have mn: "\<not> fl_less (?a ! i) (?a ! ?j)" if "i < length loss" for i
    using argmin_min [OF nn, of i] that j by simp
  have fst: "fl_less (?a ! ?j) (?a ! i)" if "i < ?j" for i
    using argmin_first [of i ?a] that j by simp
  obtain k where k: "k < length loss" "loss ! k = x" using x(1) by (auto simp: in_set_conv_nth)
  have ak: "?a ! k = x" using k xn by simp
  have lj: "loss ! ?j \<noteq> NInf" using ninf jl nth_mem by metis
  have "\<not> fl_less x (?a ! ?j)" using mn [OF k(1)] ak by simp
  then have aj: "isfinite (?a ! ?j)"
  proof (cases "loss ! ?j")
    case (Fin w)
    then show ?thesis using jl by simp
  next
    case PInf
    assume "\<not> fl_less x (?a ! ?j)"
    then show ?thesis using PInf jl x(2) by (cases x) auto
  next
    case NInf
    then show ?thesis using lj by simp
  next
    case NaN
    assume "\<not> fl_less x (?a ! ?j)"
    then show ?thesis using NaN jl x(2) by (cases x) auto
  qed
  then have same: "?a ! ?j = loss ! ?j" using jl by (auto split: if_splits)
  have 1: "isfinite (loss ! ?j)" using aj same by simp
  have 2: "\<not> fl_less (loss ! i) (loss ! ?j)" if "i < length loss" for i
  proof (cases "isnan (loss ! i)")
    case True
    then show ?thesis by (cases "loss ! i") auto
  next
    case False
    then show ?thesis using mn [OF that] same that by simp
  qed
  have 3: "isnan (loss ! i) \<or> fl_less (loss ! ?j) (loss ! i)" if "i < ?j" for i
  proof (cases "isnan (loss ! i)")
    case True
    then show ?thesis by simp
  next
    case False
    have "i < length loss" using that jl by simp
    then show ?thesis using fst [OF that] same False by simp
  qed
  show ?thesis using 1 2 3 by blast
qed

lemma chosen_first_min:
  assumes ex: "\<exists>x \<in> set loss. \<not> isnan x"
  shows "(\<forall>i < length loss. \<not> fl_less (nan_as_inf (loss ! i)) (nan_as_inf (loss ! chosen loss))) \<and>
         (\<forall>i < chosen loss. fl_less (nan_as_inf (loss ! chosen loss)) (nan_as_inf (loss ! i)))"
proof -
  let ?a = "map nan_as_inf loss"
  have r: "(\<lambda>x. if isnan x then PInf else x) = nan_as_inf" by (rule ext) (simp add: nan_as_inf_def)
  have j: "chosen loss = argmin ?a" using chosen_some [OF ex] unfolding r .
  have ne: "loss \<noteq> []" using ex by auto
  have jl: "chosen loss < length loss" using chosen_less [OF ne] .
  have nn: "\<forall>y \<in> set ?a. \<not> isnan y" by (auto simp: nan_as_inf_def)
  have 1: "\<not> fl_less (nan_as_inf (loss ! i)) (nan_as_inf (loss ! chosen loss))"
    if "i < length loss" for i
    using argmin_min [OF nn, of i] that j jl by simp
  have 2: "fl_less (nan_as_inf (loss ! chosen loss)) (nan_as_inf (loss ! i))"
    if "i < chosen loss" for i
  proof -
    have "i < length loss" using that jl by simp
    then show ?thesis using argmin_first [of i ?a] that j jl by simp
  qed
  show ?thesis using 1 2 by blast
qed

lemma py_index_chosen:
  assumes "0 < n"
  shows "py_index (map f [0..<n]) (nanargmin (map g [0..<n])) = f (chosen (map g [0..<n]))"
proof -
  have "chosen (map g [0..<n]) < n" using chosen_less [of "map g [0..<n]"] assms by simp
  then have e: "map f [0..<n] ! chosen (map g [0..<n]) = f (chosen (map g [0..<n]))" by simp
  have "py_index (map f [0..<n]) (nanargmin (map g [0..<n])) = map f [0..<n] ! chosen (map g [0..<n])"
    by (simp add: py_index_def chosen_def)
  with e show ?thesis by simp
qed

lemma fit_with_multiple_initial_values_chosen:
  assumes "supported fit_model data" "0 < nInits"
  shows "fit_with_multiple_initial_values F data nInits fit_model =
     Inr (run_params F fit_model data (chosen (map (run_loss F fit_model data) [0..<nInits])))"
proof -
  consider d where "fit_model = Fit_model_same_alpha" "data = Data4 d"
    | s v where "fit_model = Fit_model_alpha_difference" "data = Data8 s v"
    using assms(1) by (auto simp: supported_def split: fit_model.splits fit_data.splits)
  then show ?thesis
  proof cases
    case 1
    have l: "run_loss F Fit_model_same_alpha (Data4 d) = snd \<circ> same_alpha F d"
      by (rule ext) (simp add: run_loss_def)
    show ?thesis
      using assms(2)
      by (simp add: fit_with_multiple_initial_values_def get_params_def dict_get_def Let_def 1
          py_index_chosen l run_params_def split: prod.splits)
  next
    case 2
    have l: "run_loss F Fit_model_alpha_difference (Data8 s v) = snd \<circ> alpha_difference F s v"
      by (rule ext) (simp add: run_loss_def)
    show ?thesis
      using assms(2)
      by (simp add: fit_with_multiple_initial_values_def get_params_def dict_get_def Let_def 2
          py_index_chosen l run_params_def split: prod.splits)
  qed
qed

lemma collect_all_Inr:
  "\<forall>x \<in> set xs. \<exists>y. f x = Inr y \<Longrightarrow>
   \<exists>ys. collect (map f xs) = Inr ys \<and> length ys = length xs \<and>
        (\<forall>k < length xs. f (xs ! k) = Inr (ys ! k))"
proof (induction xs)
  case Nil
  then show ?case by simp
next
  case (Cons x xs)
  then obtain y where y: "f x = Inr y" by auto
  from Cons obtain ys where ys: "collect (map f xs) = Inr ys" "length ys = length xs"
    "\<forall>k < length xs. f (xs ! k) = Inr (ys ! k)" by auto
  have "\<forall>k < length (x # xs). f ((x # xs) ! k) = Inr ((y # ys) ! k)"
    using y ys(3) by (auto simp: nth_Cons split: nat.splits)
  then show ?case using y ys(1,2) by (intro exI [of _ "y # ys"]) simp
qed

text \<open>
  Claim C5. For a supported fit and \<open>nInits \<ge> 1\<close>: when some run has a finite loss
  and no run has the loss minus infinity, the function returns the parameters of a run
  \<open>j\<close> among the seeds \<open>0, ..., nInits - 1\<close> whose loss is finite; no run has a
  smaller loss, and every earlier run has a NaN or a greater loss. So a run whose loss
  is NaN or plus infinity is never selected when a finite loss exists. (The loss of a
  run is a mean of cross-entropies, or the sum of two, and such a mean is never
  negative for choices in \<open>{0, 1}\<close>: minus infinity is not a loss of these fits.)
\<close>

theorem fit_with_multiple_initial_values_best:
  assumes "supported fit_model data" and "0 < nInits"
    and "\<exists>i < nInits. isfinite (run_loss F fit_model data i)"
    and "\<forall>i < nInits. run_loss F fit_model data i \<noteq> NInf"
  shows "\<exists>j < nInits.
      fit_with_multiple_initial_values F data nInits fit_model = Inr (run_params F fit_model data j) \<and>
      isfinite (run_loss F fit_model data j) \<and>
      (\<forall>i < nInits. \<not> fl_less (run_loss F fit_model data i) (run_loss F fit_model data j)) \<and>
      (\<forall>i < j. isnan (run_loss F fit_model data i) \<or>
                fl_less (run_loss F fit_model data j) (run_loss F fit_model data i))"
proof -
  let ?L = "run_loss F fit_model data"
  let ?ls = "map ?L [0..<nInits]"
  let ?j = "chosen ?ls"
  have fin: "\<exists>x \<in> set ?ls. isfinite x" using assms(3) by auto
  have ninf: "NInf \<notin> set ?ls" using assms(4) by auto
  have jl: "?j < nInits" using chosen_less [of ?ls] assms(2) by simp
  note b = chosen_best [OF fin ninf]
  have 1: "isfinite (?L ?j)" using b jl by simp
  have 2: "\<forall>i < nInits. \<not> fl_less (?L i) (?L ?j)"
  proof (intro allI impI)
    fix i assume i: "i < nInits"
    then have "\<not> fl_less (?ls ! i) (?ls ! ?j)" using b by simp
    then show "\<not> fl_less (?L i) (?L ?j)" using i jl by simp
  qed
  have 3: "\<forall>i < ?j. isnan (?L i) \<or> fl_less (?L ?j) (?L i)"
  proof (intro allI impI)
    fix i assume i: "i < ?j"
    then have "isnan (?ls ! i) \<or> fl_less (?ls ! ?j) (?ls ! i)" using b by blast
    then show "isnan (?L i) \<or> fl_less (?L ?j) (?L i)" using i jl by simp
  qed
  show ?thesis
    using fit_with_multiple_initial_values_chosen [OF assms(1,2), of F] jl 1 2 3 by blast
qed

text \<open>An instance: the losses NaN, 2, 1 of three runs select the third run.\<close>

theorem fit_with_multiple_initial_values_best_witness:
  "supported Fit_model_same_alpha (Data4 example_data) \<and> (0::nat) < 3 \<and>
   isfinite (run_loss example_fitters Fit_model_same_alpha (Data4 example_data) 1) \<and>
   (\<exists>j < 3. fit_with_multiple_initial_values example_fitters (Data4 example_data) 3
                Fit_model_same_alpha =
              Inr (run_params example_fitters Fit_model_same_alpha (Data4 example_data) j) \<and>
            isfinite (run_loss example_fitters Fit_model_same_alpha (Data4 example_data) j)) \<and>
   fit_with_multiple_initial_values example_fitters (Data4 example_data) 3 Fit_model_same_alpha =
     Inr [(''alpha'', Fin (7/10)), (''beta'', Fin (4/5))]"
proof -
  have s: "supported Fit_model_same_alpha (Data4 example_data)" by (simp add: supported_def)
  have n: "(0::nat) < 3" by simp
  have f1: "isfinite (run_loss example_fitters Fit_model_same_alpha (Data4 example_data) 1)"
    by (simp add: run_loss_def example_fitters_def)
  then have f: "\<exists>i < 3. isfinite (run_loss example_fitters Fit_model_same_alpha (Data4 example_data) i)"
    by (intro exI [of _ 1]) simp
  have g: "\<forall>i < 3. run_loss example_fitters Fit_model_same_alpha (Data4 example_data) i \<noteq> NInf"
    by (simp add: run_loss_def example_fitters_def)
  from fit_with_multiple_initial_values_best [OF s n f g]
  have e: "\<exists>j < 3. fit_with_multiple_initial_values example_fitters (Data4 example_data) 3
                Fit_model_same_alpha =
              Inr (run_params example_fitters Fit_model_same_alpha (Data4 example_data) j) \<and>
            isfinite (run_loss example_fitters Fit_model_same_alpha (Data4 example_data) j)"
    by blast
  have v: "fit_with_multiple_initial_values example_fitters (Data4 example_data) 3 Fit_model_same_alpha =
     Inr [(''alpha'', Fin (7/10)), (''beta'', Fin (4/5))]"
    by (simp add: fit_with_multiple_initial_values_def get_params_def dict_get_def Let_def
        example_fitters_def nanargmin_def py_index_def upt_rec)
  show ?thesis using s n f1 e v by blast
qed

text \<open>
  Claim C6, as the code has it. For a supported fit and \<open>nInits \<ge> 1\<close>: when every run
  has a non-finite loss, the function still returns the parameters of one of the runs,
  as an ordinary result. When every loss is NaN, they are those of the last run;
  otherwise they are those of the first run with the smallest loss, where a NaN loss
  counts as plus infinity. Within \<^verbatim>\<open>fit_multiple_participants\<close>, every subject of a
  population of supported data gets the result of its own multi-start fit, so that no
  subject's fit stops or changes another's.
\<close>

theorem fit_with_multiple_initial_values_degenerate:
  assumes "supported fit_model data" and "0 < nInits"
    and "\<forall>i < nInits. \<not> isfinite (run_loss F fit_model data i)"
  shows "(\<exists>j < nInits. fit_with_multiple_initial_values F data nInits fit_model =
                        Inr (run_params F fit_model data j)) \<and>
         ((\<forall>i < nInits. isnan (run_loss F fit_model data i)) \<longrightarrow>
            fit_with_multiple_initial_values F data nInits fit_model =
              Inr (run_params F fit_model data (nInits - 1))) \<and>
         ((\<exists>i < nInits. \<not> isnan (run_loss F fit_model data i)) \<longrightarrow>
            (\<exists>j < nInits.
               fit_with_multiple_initial_values F data nInits fit_model =
                 Inr (run_params F fit_model data j) \<and>
               (\<forall>i < nInits. \<not> fl_less (nan_as_inf (run_loss F fit_model data i))
                                       (nan_as_inf (run_loss F fit_model data j))) \<and>
               (\<forall>i < j. fl_less (nan_as_inf (run_loss F fit_model data j))
                                (nan_as_inf (run_loss F fit_model data i))))) \<and>
         (\<forall>subjects. (\<forall>d \<in> set subjects. supported fit_model d) \<longrightarrow>
            (\<exists>rows. fit_multiple_participants F subjects nInits fit_model = Inr rows \<and>
                    length rows = length subjects \<and>
                    (\<forall>k < length subjects.
                       fit_with_multiple_initial_values F (subjects ! k) nInits fit_model =
                         Inr (rows ! k))))"
proof -
  let ?L = "run_loss F fit_model data"
  let ?ls = "map ?L [0..<nInits]"
  note c = fit_with_multiple_initial_values_chosen [OF assms(1,2), of F]
  have jl: "chosen ?ls < nInits" using chosen_less [of ?ls] assms(2) by simp
  have 1: "\<exists>j < nInits. fit_with_multiple_initial_values F data nInits fit_model =
                        Inr (run_params F fit_model data j)"
    using c jl by blast
  have 2: "fit_with_multiple_initial_values F data nInits fit_model =
              Inr (run_params F fit_model data (nInits - 1))"
    if "\<forall>i < nInits. isnan (run_loss F fit_model data i)"
  proof -
    have "\<forall>x \<in> set ?ls. isnan x" using that by auto
    moreover have "?ls \<noteq> []" using assms(2) by simp
    ultimately have "chosen ?ls = nInits - 1" using chosen_all_nan [of ?ls] by simp
    then show ?thesis using c by simp
  qed
  have 3: "\<exists>j < nInits.
               fit_with_multiple_initial_values F data nInits fit_model =
                 Inr (run_params F fit_model data j) \<and>
               (\<forall>i < nInits. \<not> fl_less (nan_as_inf (?L i)) (nan_as_inf (?L j))) \<and>
               (\<forall>i < j. fl_less (nan_as_inf (?L j)) (nan_as_inf (?L i)))"
    if "\<exists>i < nInits. \<not> isnan (run_loss F fit_model data i)"
  proof -
    have ex: "\<exists>x \<in> set ?ls. \<not> isnan x" using that by auto
    note f = chosen_first_min [OF ex]
    have a: "\<forall>i < nInits. \<not> fl_less (nan_as_inf (?L i)) (nan_as_inf (?L (chosen ?ls)))"
    proof (intro allI impI)
      fix i assume i: "i < nInits"
      then have "\<not> fl_less (nan_as_inf (?ls ! i)) (nan_as_inf (?ls ! chosen ?ls))"
        using f by simp
      then show "\<not> fl_less (nan_as_inf (?L i)) (nan_as_inf (?L (chosen ?ls)))"
        using i jl by simp
    qed
    have b: "\<forall>i < chosen ?ls. fl_less (nan_as_inf (?L (chosen ?ls))) (nan_as_inf (?L i))"
    proof (intro allI impI)
      fix i assume i: "i < chosen ?ls"
      then have "fl_less (nan_as_inf (?ls ! chosen ?ls)) (nan_as_inf (?ls ! i))"
        using f by blast
      then show "fl_less (nan_as_inf (?L (chosen ?ls))) (nan_as_inf (?L i))"
        using i jl by simp
    qed
    show ?thesis using c jl a b by blast
  qed
  have 4: "\<exists>rows. fit_multiple_participants F subjects nInits fit_model = Inr rows \<and>
                    length rows = length subjects \<and>
                    (\<forall>k < length subjects.
                       fit_with_multiple_initial_values F (subjects ! k) nInits fit_model =
                         Inr (rows ! k))"
    if s: "\<forall>d \<in> set subjects. supported fit_model d" for subjects
  proof -
    have m: "fit_model \<noteq> Other_callable" using assms(1) by (auto simp: supported_def)
    have "\<forall>d \<in> set subjects. \<exists>y. fit_with_multiple_initial_values F d nInits fit_model = Inr y"
      using s fit_with_multiple_initial_values_chosen [OF _ assms(2), of fit_model _ F] by blast
    from collect_all_Inr [OF this] show ?thesis
      using m assms(2) by (simp add: fit_multiple_participants_def)
  qed
  show ?thesis using 1 2 3 4 by blast
qed

text \<open>
  An instance: two runs of the split-alpha fit, both with the loss plus infinity; the
  parameters of the first run are returned.
\<close>

theorem fit_with_multiple_initial_values_degenerate_witness:
  "supported Fit_model_alpha_difference (Data8 example_data example_data) \<and> (0::nat) < 2 \<and>
   \<not> isfinite (run_loss degenerate_fitters Fit_model_alpha_difference
                  (Data8 example_data example_data) 0) \<and>
   \<not> isfinite (run_loss degenerate_fitters Fit_model_alpha_difference
                  (Data8 example_data example_data) 1) \<and>
   (\<exists>j < 2. fit_with_multiple_initial_values degenerate_fitters (Data8 example_data example_data) 2
               Fit_model_alpha_difference =
             Inr (run_params degenerate_fitters Fit_model_alpha_difference
                    (Data8 example_data example_data) j)) \<and>
   fit_with_multiple_initial_values degenerate_fitters (Data8 example_data example_data) 2
       Fit_model_alpha_difference =
     Inr [(''alphaStable'', Fin (1/5)), (''alphaVolatile'', Fin (3/10)), (''beta'', Fin (2/5))] \<and>
   (\<exists>rows. fit_multiple_participants degenerate_fitters
              [Data8 example_data example_data, Data8 example_data example_data] 2
              Fit_model_alpha_difference = Inr rows \<and> length rows = 2)"
proof -
  let ?d = "Data8 example_data example_data"
  have s: "supported Fit_model_alpha_difference ?d" by (simp add: supported_def)
  have n: "(0::nat) < 2" by simp
  have l: "run_loss degenerate_fitters Fit_model_alpha_difference ?d i = PInf" for i
    by (simp add: run_loss_def degenerate_fitters_def)
  have h: "\<forall>i < 2. \<not> isfinite (run_loss degenerate_fitters Fit_model_alpha_difference ?d i)"
    by (simp add: l)
  note t = fit_with_multiple_initial_values_degenerate [OF s n h]
  have a: "\<exists>j < 2. fit_with_multiple_initial_values degenerate_fitters ?d 2
               Fit_model_alpha_difference =
             Inr (run_params degenerate_fitters Fit_model_alpha_difference ?d j)"
    by (rule t [THEN conjunct1])
  have v: "fit_with_multiple_initial_values degenerate_fitters ?d 2 Fit_model_alpha_difference =
     Inr [(''alphaStable'', Fin (1/5)), (''alphaVolatile'', Fin (3/10)), (''beta'', Fin (2/5))]"
    by (simp add: fit_with_multiple_initial_values_def get_params_def dict_get_def Let_def
        degenerate_fitters_def nanargmin_def py_index_def upt_rec)
  have "\<forall>d \<in> set [?d, ?d]. supported Fit_model_alpha_difference d" using s by simp
  with t [THEN conjunct2, THEN conjunct2, THEN conjunct2]
  have b: "\<exists>rows. fit_multiple_participants degenerate_fitters [?d, ?d] 2
              Fit_model_alpha_difference = Inr rows \<and> length rows = 2"
    by fastforce
  show ?thesis using s n a v b by (simp add: l)
qed

text \<open>
  Claim C6, as the specification words it, asks for a sentinel or an error when every
  run has a non-finite loss. With two runs whose losses are both NaN the function
  returns the parameters of the second run, \<open>{alpha: 7/10, beta: 4/5}\<close>, and with two
  runs whose losses are both plus infinity it returns the parameters of the first run,
  \<open>{alphaStable: 1/5, alphaVolatile: 3/10, beta: 2/5}\<close>, as it would return the
  result of a successful fit.
\<close>

theorem fit_with_multiple_initial_values_all_nan_counterexample:
  "run_loss degenerate_fitters Fit_model_same_alpha (Data4 example_data) 0 = NaN \<and>
   run_loss degenerate_fitters Fit_model_same_alpha (Data4 example_data) 1 = NaN \<and>
   fit_with_multiple_initial_values degenerate_fitters (Data4 example_data) 2 Fit_model_same_alpha =
     Inr [(''alpha'', Fin (7/10)), (''beta'', Fin (4/5))] \<and>
   run_loss degenerate_fitters Fit_model_alpha_difference (Data8 example_data example_data) 0 = PInf \<and>
   run_loss degenerate_fitters Fit_model_alpha_difference (Data8 example_data example_data) 1 = PInf \<and>
   fit_with_multiple_initial_values degenerate_fitters (Data8 example_data example_data) 2
       Fit_model_alpha_difference =
     Inr [(''alphaStable'', Fin (1/5)), (''alphaVolatile'', Fin (3/10)), (''beta'', Fin (2/5))]"
  by (simp add: fit_with_multiple_initial_values_def get_params_def dict_get_def Let_def
      degenerate_fitters_def nanargmin_def py_index_def run_loss_def upt_rec)

section \<open>Properties of the parameter recovery\<close>

lemma for_each_upt_from:
  assumes step: "\<And>i s. i < m \<Longrightarrow> I i s \<Longrightarrow> \<exists>s'. body i s = Inr s' \<and> I (Suc i) s'"
  shows "j \<le> m \<Longrightarrow> I j s \<Longrightarrow> \<exists>s'. for_each [j..<m] body s = Inr s' \<and> I m s'"
proof (induction "m - j" arbitrary: j s)
  case 0
  then show ?case by simp
next
  case (Suc d)
  then have jm: "j < m" by simp
  from step [OF jm Suc.prems(2)] obtain s1 where s1: "body j s = Inr s1" "I (Suc j) s1" by blast
  have "d = m - Suc j" using Suc.hyps(2) by simp
  from Suc.hyps(1) [OF this _ s1(2)] jm obtain s' where
    "for_each [Suc j..<m] body s1 = Inr s'" "I m s'" by auto
  then show ?case using jm s1(1) by (simp add: upt_conv_Cons)
qed

lemma for_each_upt:
  assumes "\<And>i s. i < m \<Longrightarrow> I i s \<Longrightarrow> \<exists>s'. body i s = Inr s' \<and> I (Suc i) s'" and "I 0 s"
  shows "\<exists>s'. for_each [0..<m] body s = Inr s' \<and> I m s'"
  using for_each_upt_from [of m I body 0 s] assms by simp

lemma grid_index:
  assumes "a < A" "b < (B::nat)"
  shows "a * B + b < A * B" "(a * B + b) div B = a" "(a * B + b) mod B = b"
proof -
  have "a * B + b < a * B + B" using assms(2) by simp
  also have "\<dots> = Suc a * B" by simp
  also have "\<dots> \<le> A * B" using assms(1) by (intro mult_le_mono1) simp
  finally show "a * B + b < A * B" .
  show "(a * B + b) div B = a" using assms(2) by simp
  show "(a * B + b) mod B = b" using assms(2) by simp
qed

lemma simulate_one_invariant:
  assumes ok: "simulators_ok E tp"
    and inv: "loop_invariant E alphas betas tp rng (a * length betas + b) st"
    and a: "a < length alphas" and b: "b < length betas"
  shows "\<exists>st'. simulate_one E alphas betas tp a b st = Inr st' \<and>
               loop_invariant E alphas betas tp rng (a * length betas + Suc b) st'"
proof -
  let ?B = "length betas"
  let ?n = "length alphas * ?B"
  let ?k = "a * ?B + b"
  let ?T = "length tp"
  note gi = grid_index [OF a b]
  have c: "counter st = ?k" using inv by (simp add: loop_invariant_def)
  have w: "rng_state st = rng_before E tp rng ?k" using inv by (simp add: loop_invariant_def)
  have lens: "length (recoveryData st) = ?n" "length (opt1RewardedMat st) = ?n"
    "length (magOpt1Mat st) = ?n" "length (magOpt2Mat st) = ?n" "length (choice1Mat st) = ?n"
    using inv by (simp_all add: loop_invariant_def)
  have old: "simulated_at E alphas betas tp rng st c'" if "c' < ?k" for c'
    using inv that by (simp add: loop_invariant_def)
  obtain r m1 m2 w1 where g: "generate_schedule E tp (rng_state st) = ((r, m1, m2), w1)"
    by (cases "generate_schedule E tp (rng_state st)") auto
  have "case generate_schedule E tp (rng_state st) of ((r, m1, m2), _) \<Rightarrow>
            length r = ?T \<and> length m1 = ?T \<and> length m2 = ?T"
    using ok unfolding simulators_ok_def by simp
  then have gl: "length r = ?T" "length m1 = ?T" "length m2 = ?T"
    unfolding g by simp_all
  let ?rM = "(opt1RewardedMat st)[?k := r]"
  let ?m1M = "(magOpt1Mat st)[?k := m1]"
  let ?m2M = "(magOpt2Mat st)[?k := m2]"
  have at: "?rM ! ?k = r" "?m1M ! ?k = m1" "?m2M ! ?k = m2"
    using gi(1) lens by simp_all
  obtain po cp where sim: "simulate_RL_model E r m1 m2 (alphas ! a) (betas ! b) = (po, cp)"
    by (cases "simulate_RL_model E r m1 m2 (alphas ! a) (betas ! b)")
  have cl: "length cp = ?T"
    using ok gl(1) sim unfolding simulators_ok_def by (metis snd_conv)
  obtain draws w2 where d: "rng_random E ?T w1 = (draws, w2)"
    by (cases "rng_random E ?T w1")
  have dl: "length draws = ?T" using ok d unfolding simulators_ok_def by (metis fst_conv)
  define st' where "st' = st\<lparr>counter := ?k + 1,
                   recoveryData := (recoveryData st)
                     [?k := (recoveryData st ! ?k)\<lparr>simulatedAlpha := alphas ! a,
                                                 simulatedBeta := betas ! b\<rparr>],
                   opt1RewardedMat := ?rM,
                   magOpt1Mat := ?m1M,
                   magOpt2Mat := ?m2M,
                   choice1Mat := (choice1Mat st)[?k := binarize cp draws],
                   rng_state := w2\<rparr>"
  have run: "simulate_one E alphas betas tp a b st = Inr st'"
    unfolding simulate_one_def Let_def c g prod.case at sim d
    using gl cl dl by (simp add: st'_def)
  have g': "generate_schedule E tp (rng_before E tp rng ?k) = ((r, m1, m2), w1)"
    using g w by simp
  have subj: "simulated_subject E alphas betas tp rng ?k = (r, m1, m2, binarize cp draws)"
    unfolding simulated_subject_def g' prod.case gi(2) gi(3) sim d by simp
  have new: "simulated_at E alphas betas tp rng st' ?k"
    unfolding simulated_at_def subj
    using gi lens by (simp add: st'_def)
  have keep: "simulated_at E alphas betas tp rng st' c'" if "c' < ?k" for c'
    using old [OF that] that unfolding simulated_at_def by (simp add: st'_def)
  have all: "\<forall>c' < Suc ?k. simulated_at E alphas betas tp rng st' c'"
    using new keep by (auto simp: less_Suc_eq)
  have w': "rng_state st' = rng_before E tp rng (Suc ?k)"
    by (simp add: st'_def g' d)
  have "loop_invariant E alphas betas tp rng (Suc ?k) st'"
    unfolding loop_invariant_def using lens all w' by (simp add: st'_def)
  then have "loop_invariant E alphas betas tp rng (a * ?B + Suc b) st'" by simp
  then show ?thesis using run by blast
qed

lemma inner_loop_invariant:
  assumes ok: "simulators_ok E tp"
    and inv: "loop_invariant E alphas betas tp rng (a * length betas) st"
    and a: "a < length alphas"
  shows "\<exists>st'. for_each [0..<length betas]
                  (\<lambda>beta. simulate_one E alphas betas tp a beta) st = Inr st' \<and>
               loop_invariant E alphas betas tp rng (Suc a * length betas) st'"
proof -
  let ?I = "\<lambda>b s. loop_invariant E alphas betas tp rng (a * length betas + b) s"
  have "\<exists>s'. for_each [0..<length betas] (\<lambda>beta. simulate_one E alphas betas tp a beta) st = Inr s' \<and>
             ?I (length betas) s'"
  proof (rule for_each_upt [where I = ?I])
    fix i s assume "i < length betas" "?I i s"
    then show "\<exists>s'. simulate_one E alphas betas tp a i s = Inr s' \<and> ?I (Suc i) s'"
      using simulate_one_invariant [OF ok _ a] by blast
  next
    show "?I 0 st" using inv by simp
  qed
  then show ?thesis by (simp add: add.commute)
qed

lemma recovery_loops_invariant:
  assumes ok: "simulators_ok E tp"
  shows "\<exists>st. recovery_loops E alphas betas tp rng = Inr st \<and>
              loop_invariant E alphas betas tp rng (length alphas * length betas) st"
proof -
  let ?I = "\<lambda>a s. loop_invariant E alphas betas tp rng (a * length betas) s"
  let ?body = "\<lambda>alpha. for_each [0..<length betas]
                  (\<lambda>beta. simulate_one E alphas betas tp alpha beta)"
  have "\<exists>s'. for_each [0..<length alphas] ?body s = Inr s' \<and> ?I (length alphas) s'"
    if "?I 0 s" for s
  proof (rule for_each_upt [where I = ?I])
    fix i s assume "i < length alphas" "?I i s"
    then show "\<exists>s'. ?body i s = Inr s' \<and> ?I (Suc i) s'"
      using inner_loop_invariant [OF ok] by blast
  next
    show "?I 0 s" using that .
  qed
  then show ?thesis
    unfolding recovery_loops_def Let_def by (auto simp: loop_invariant_def)
qed

lemma collect_map_Inr:
  "(\<And>x. x \<in> set xs \<Longrightarrow> f x = Inr (g x)) \<Longrightarrow> collect (map f xs) = Inr (map g xs)"
  by (induction xs) simp_all

lemma fit_same_alpha_shape:
  assumes "0 < nInits"
  shows "\<exists>a b. fit_with_multiple_initial_values F (Data4 d) nInits Fit_model_same_alpha =
           Inr [(''alpha'', a), (''beta'', b)]"
proof -
  have "supported Fit_model_same_alpha (Data4 d)" by (simp add: supported_def)
  from fit_with_multiple_initial_values_chosen [OF this assms, of F]
  show ?thesis by (auto simp: run_params_def split: prod.splits)
qed

lemma set_recovered_rows:
  assumes len: "length params = length rows"
    and shape: "\<And>c. c < length rows \<Longrightarrow> \<exists>a b. params ! c = [(''alpha'', a), (''beta'', b)]"
  shows "\<exists>table. set_recovered rows params = Inr table \<and> length table = length rows \<and>
          (\<forall>c < length rows.
             simulatedAlpha (table ! c) = simulatedAlpha (rows ! c) \<and>
             simulatedBeta (table ! c) = simulatedBeta (rows ! c) \<and>
             params ! c = [(''alpha'', recoveredAlpha (table ! c)),
                           (''beta'', recoveredBeta (table ! c))])"
proof -
  let ?h = "\<lambda>row p.
             case dict_get p ''alpha'' of Inl e \<Rightarrow> Inl e | Inr a \<Rightarrow>
             case dict_get p ''beta'' of Inl e \<Rightarrow> Inl e | Inr b \<Rightarrow>
               Inr (row\<lparr>recoveredAlpha := a, recoveredBeta := b\<rparr>)"
  let ?g = "\<lambda>(row, p). row\<lparr>recoveredAlpha := snd (p ! 0), recoveredBeta := snd (p ! 1)\<rparr>"
  have each: "(\<lambda>(row, p). ?h row p) x = Inr (?g x)" if "x \<in> set (zip rows params)" for x
  proof -
    from that obtain c where c: "c < length rows" "x = (rows ! c, params ! c)"
      using len by (auto simp: in_set_zip)
    from shape [OF c(1)] obtain a b where "params ! c = [(''alpha'', a), (''beta'', b)]" by blast
    then show ?thesis by (simp add: c(2) dict_get_def)
  qed
  have run: "set_recovered rows params = Inr (map ?g (zip rows params))"
    unfolding set_recovered_def using len collect_map_Inr [of "zip rows params", OF each]
    by simp
  have "simulatedAlpha (map ?g (zip rows params) ! c) = simulatedAlpha (rows ! c) \<and>
        simulatedBeta (map ?g (zip rows params) ! c) = simulatedBeta (rows ! c) \<and>
        params ! c = [(''alpha'', recoveredAlpha (map ?g (zip rows params) ! c)),
                      (''beta'', recoveredBeta (map ?g (zip rows params) ! c))]"
    if "c < length rows" for c
  proof -
    from shape [OF that] obtain a b where "params ! c = [(''alpha'', a), (''beta'', b)]" by blast
    then show ?thesis using that len by simp
  qed
  then show ?thesis using run len by simp
qed

text \<open>
  Claim C9. For ranges of lengths \<open>A\<close> and \<open>B\<close>, with collaborators that keep their
  interface and \<open>nInits \<ge> 1\<close>, \<^verbatim>\<open>run_paramterer_recovery\<close> returns a table of
  \<open>A * B\<close> rows, and the stacked data it fits has \<open>A * B\<close> rows. Row \<open>c\<close> of the
  table has \<open>simulatedAlpha = simulatedAlphaRange[c div B]\<close> and \<open>simulatedBeta =
  simulatedBetaRange[c mod B]\<close>; row \<open>c\<close> of the stacked data is the data of the
  subject simulated for that grid point, on the schedule with the number \<open>c\<close>; and
  the recovered columns of row \<open>c\<close> are the parameters that the multi-start fit
  returns for row \<open>c\<close> of the stacked data.
\<close>

theorem run_paramterer_recovery_grid:
  assumes ok: "simulators_ok E trueProbability" and n: "0 < nInits"
  shows "\<exists>st table.
      recovery_loops E simulatedAlphaRange simulatedBetaRange trueProbability rng = Inr st \<and>
      run_paramterer_recovery F E simulatedAlphaRange simulatedBetaRange trueProbability rng nInits
        = Inr table \<and>
      length table = length simulatedAlphaRange * length simulatedBetaRange \<and>
      length (stacked_data st) = length simulatedAlphaRange * length simulatedBetaRange \<and>
      (\<forall>c < length simulatedAlphaRange * length simulatedBetaRange.
         simulatedAlpha (table ! c) = simulatedAlphaRange ! (c div length simulatedBetaRange) \<and>
         simulatedBeta (table ! c) = simulatedBetaRange ! (c mod length simulatedBetaRange) \<and>
         simulated_at E simulatedAlphaRange simulatedBetaRange trueProbability rng st c \<and>
         stacked_data st ! c =
           Data4 (simulated_subject E simulatedAlphaRange simulatedBetaRange trueProbability rng c) \<and>
         fit_with_multiple_initial_values F (stacked_data st ! c) nInits Fit_model_same_alpha =
           Inr [(''alpha'', recoveredAlpha (table ! c)), (''beta'', recoveredBeta (table ! c))])"
proof -
  let ?n = "length simulatedAlphaRange * length simulatedBetaRange"
  from recovery_loops_invariant [OF ok, of simulatedAlphaRange simulatedBetaRange rng]
  obtain st where st: "recovery_loops E simulatedAlphaRange simulatedBetaRange trueProbability rng = Inr st"
    and inv: "loop_invariant E simulatedAlphaRange simulatedBetaRange trueProbability rng ?n st" by blast
  have lens: "length (recoveryData st) = ?n" "length (opt1RewardedMat st) = ?n"
    using inv by (simp_all add: loop_invariant_def)
  have sim: "simulated_at E simulatedAlphaRange simulatedBetaRange trueProbability rng st c" if "c < ?n" for c
    using inv that by (simp add: loop_invariant_def)
  have ls: "length (stacked_data st) = ?n" by (simp add: stacked_data_def lens)
  have d4: "\<exists>d. x = Data4 d" if "x \<in> set (stacked_data st)" for x
    using that by (auto simp: stacked_data_def)
  have "\<forall>x \<in> set (stacked_data st).
          \<exists>y. fit_with_multiple_initial_values F x nInits Fit_model_same_alpha = Inr y"
    using d4 fit_same_alpha_shape [OF n, of F] by metis
  from collect_all_Inr [OF this] obtain params where
    p0: "collect (map (\<lambda>d. fit_with_multiple_initial_values F d nInits Fit_model_same_alpha)
           (stacked_data st)) = Inr params"
      and p23: "length params = ?n"
      "\<forall>c < ?n. fit_with_multiple_initial_values F (stacked_data st ! c) nInits Fit_model_same_alpha
                 = Inr (params ! c)"
    unfolding ls by blast
  have p1: "fit_multiple_participants F (stacked_data st) nInits Fit_model_same_alpha = Inr params"
    using p0 n by (simp add: fit_multiple_participants_def)
  note p = p1 p23
  have shape: "\<exists>a b. params ! c = [(''alpha'', a), (''beta'', b)]" if "c < length (recoveryData st)" for c
  proof -
    have c: "c < ?n" using that lens by simp
    then have "stacked_data st ! c \<in> set (stacked_data st)" using ls by simp
    from d4 [OF this] obtain d where d: "stacked_data st ! c = Data4 d" by blast
    from fit_same_alpha_shape [OF n, of F d] obtain a b where
      "fit_with_multiple_initial_values F (Data4 d) nInits Fit_model_same_alpha =
         Inr [(''alpha'', a), (''beta'', b)]" by blast
    moreover have "fit_with_multiple_initial_values F (Data4 d) nInits Fit_model_same_alpha =
         Inr (params ! c)" using p(3) c d by auto
    ultimately have "params ! c = [(''alpha'', a), (''beta'', b)]" by simp
    then show ?thesis by blast
  qed
  have "length params = length (recoveryData st)" using p(2) lens by simp
  from set_recovered_rows [OF this shape] obtain table where
    t: "set_recovered (recoveryData st) params = Inr table" "length table = ?n"
      "\<forall>c < ?n. simulatedAlpha (table ! c) = simulatedAlpha (recoveryData st ! c) \<and>
             simulatedBeta (table ! c) = simulatedBeta (recoveryData st ! c) \<and>
             params ! c = [(''alpha'', recoveredAlpha (table ! c)),
                           (''beta'', recoveredBeta (table ! c))]"
    using lens by auto
  have run: "run_paramterer_recovery F E simulatedAlphaRange simulatedBetaRange trueProbability rng nInits
        = Inr table"
    by (simp add: run_paramterer_recovery_def st p(1) t(1))
  have rows: "simulatedAlpha (table ! c) = simulatedAlphaRange ! (c div length simulatedBetaRange) \<and>
         simulatedBeta (table ! c) = simulatedBetaRange ! (c mod length simulatedBetaRange) \<and>
         simulated_at E simulatedAlphaRange simulatedBetaRange trueProbability rng st c \<and>
         stacked_data st ! c =
           Data4 (simulated_subject E simulatedAlphaRange simulatedBetaRange trueProbability rng c) \<and>
         fit_with_multiple_initial_values F (stacked_data st ! c) nInits Fit_model_same_alpha =
           Inr [(''alpha'', recoveredAlpha (table ! c)), (''beta'', recoveredBeta (table ! c))]"
    if c: "c < ?n" for c
  proof -
    note s = sim [OF c]
    have cells: "simulatedAlpha (recoveryData st ! c) = simulatedAlphaRange ! (c div length simulatedBetaRange)"
      "simulatedBeta (recoveryData st ! c) = simulatedBetaRange ! (c mod length simulatedBetaRange)"
      using s by (simp_all add: simulated_at_def)
    have row: "stacked_data st ! c =
           Data4 (simulated_subject E simulatedAlphaRange simulatedBetaRange trueProbability rng c)"
      using s c lens by (simp add: simulated_at_def stacked_data_def)
    have tab: "simulatedAlpha (table ! c) = simulatedAlpha (recoveryData st ! c)"
      "simulatedBeta (table ! c) = simulatedBeta (recoveryData st ! c)"
      "params ! c = [(''alpha'', recoveredAlpha (table ! c)), (''beta'', recoveredBeta (table ! c))]"
      using t(3) c by simp_all
    have fit: "fit_with_multiple_initial_values F (stacked_data st ! c) nInits Fit_model_same_alpha =
           Inr [(''alpha'', recoveredAlpha (table ! c)), (''beta'', recoveredBeta (table ! c))]"
      using p(3) c tab(3) by metis
    show ?thesis
      unfolding tab(1) tab(2) cells using s row fit by (intro conjI) (rule refl | assumption)+
  qed
  show ?thesis using st run t(2) ls rows by blast
qed


lemma example_simulators_ok: "simulators_ok example_simulators tp"
  by (simp add: simulators_ok_def example_simulators_def)

text \<open>
  An instance: the grid \<open>{1/10, 1/2, 9/10} \<times> {1/20, 1/5}\<close> gives six rows, in the
  order of the grid. The subject with the number 3 is simulated at \<open>(1/2, 1/5)\<close>, on
  the schedule drawn from the state of randomness 6.
\<close>

theorem run_paramterer_recovery_grid_witness:
  "simulators_ok example_simulators [7/10] \<and> (0::nat) < 2 \<and>
   run_paramterer_recovery echo_fitters example_simulators [1/10, 1/2, 9/10] [1/20, 1/5] [7/10]
       0 2 =
     Inr [\<lparr>simulatedAlpha = 1/10, simulatedBeta = 1/20, recoveredAlpha = Fin 0, recoveredBeta = Fin 0\<rparr>,
          \<lparr>simulatedAlpha = 1/10, simulatedBeta = 1/5, recoveredAlpha = Fin 1, recoveredBeta = Fin 2\<rparr>,
          \<lparr>simulatedAlpha = 1/2, simulatedBeta = 1/20, recoveredAlpha = Fin 0, recoveredBeta = Fin 4\<rparr>,
          \<lparr>simulatedAlpha = 1/2, simulatedBeta = 1/5, recoveredAlpha = Fin 1, recoveredBeta = Fin 6\<rparr>,
          \<lparr>simulatedAlpha = 9/10, simulatedBeta = 1/20, recoveredAlpha = Fin 0, recoveredBeta = Fin 8\<rparr>,
          \<lparr>simulatedAlpha = 9/10, simulatedBeta = 1/5, recoveredAlpha = Fin 1, recoveredBeta = Fin 10\<rparr>] \<and>
   simulated_subject example_simulators [1/10, 1/2, 9/10] [1/20, 1/5] [7/10] 0 3 =
     ([1], [10], [6], [1]) \<and>
   (\<exists>st table.
      recovery_loops example_simulators [1/10, 1/2, 9/10] [1/20, 1/5] [7/10] 0 = Inr st \<and>
      run_paramterer_recovery echo_fitters example_simulators [1/10, 1/2, 9/10] [1/20, 1/5] [7/10]
        0 2 = Inr table \<and>
      length table = 6 \<and>
      simulatedAlpha (table ! 3) = 1/2 \<and> simulatedBeta (table ! 3) = 1/5 \<and>
      stacked_data st ! 3 = Data4 ([1], [10], [6], [1]))"
proof -
  have ok: "simulators_ok example_simulators [7/10]" by (rule example_simulators_ok)
  have n: "(0::nat) < 2" by simp
  have v: "run_paramterer_recovery echo_fitters example_simulators [1/10, 1/2, 9/10] [1/20, 1/5] [7/10]
       0 2 =
     Inr [\<lparr>simulatedAlpha = 1/10, simulatedBeta = 1/20, recoveredAlpha = Fin 0, recoveredBeta = Fin 0\<rparr>,
          \<lparr>simulatedAlpha = 1/10, simulatedBeta = 1/5, recoveredAlpha = Fin 1, recoveredBeta = Fin 2\<rparr>,
          \<lparr>simulatedAlpha = 1/2, simulatedBeta = 1/20, recoveredAlpha = Fin 0, recoveredBeta = Fin 4\<rparr>,
          \<lparr>simulatedAlpha = 1/2, simulatedBeta = 1/5, recoveredAlpha = Fin 1, recoveredBeta = Fin 6\<rparr>,
          \<lparr>simulatedAlpha = 9/10, simulatedBeta = 1/20, recoveredAlpha = Fin 0, recoveredBeta = Fin 8\<rparr>,
          \<lparr>simulatedAlpha = 9/10, simulatedBeta = 1/5, recoveredAlpha = Fin 1, recoveredBeta = Fin 10\<rparr>]"
    by (simp add: run_paramterer_recovery_def recovery_loops_def simulate_one_def Let_def
        example_simulators_def echo_fitters_def binarize_def stacked_data_def
        fit_multiple_participants_def fit_with_multiple_initial_values_def get_params_def
        dict_get_def nanargmin_def py_index_def set_recovered_def upt_rec)
  have three: "(3::nat) = Suc (Suc (Suc 0))" by simp
  have two: "length [1/20, 1/5::real] = 2" by simp
  have dm: "(3::nat) div 2 = 1" "(3::nat) mod 2 = 1" by simp_all
  have w3: "rng_before example_simulators [7/10] 0 3 = 6"
    unfolding three by (simp add: example_simulators_def)
  have sb: "simulated_subject example_simulators [1/10, 1/2, 9/10] [1/20, 1/5] [7/10] 0 3 =
     ([1], [10], [6], [1])"
    unfolding simulated_subject_def w3 two dm
    by (simp add: example_simulators_def binarize_def)
  from run_paramterer_recovery_grid [OF ok n, of "[1/10, 1/2, 9/10]" "[1/20, 1/5]" 0 echo_fitters]
  obtain st table where
    t: "recovery_loops example_simulators [1/10, 1/2, 9/10] [1/20, 1/5] [7/10] 0 = Inr st"
      "run_paramterer_recovery echo_fitters example_simulators [1/10, 1/2, 9/10] [1/20, 1/5] [7/10]
        0 2 = Inr table"
      "length table = length [1/10, 1/2, 9/10::real] * length [1/20, 1/5::real]"
      "\<forall>c < length [1/10, 1/2, 9/10::real] * length [1/20, 1/5::real].
         simulatedAlpha (table ! c) = [1/10, 1/2, 9/10] ! (c div length [1/20, 1/5::real]) \<and>
         simulatedBeta (table ! c) = [1/20, 1/5] ! (c mod length [1/20, 1/5::real]) \<and>
         stacked_data st ! c =
           Data4 (simulated_subject example_simulators [1/10, 1/2, 9/10] [1/20, 1/5] [7/10] 0 c)"
    by blast
  have "(3::nat) < length [1/10, 1/2, 9/10::real] * length [1/20, 1/5::real]" by simp
  with t(4) have "simulatedAlpha (table ! 3) = [1/10, 1/2, 9/10] ! (3 div length [1/20, 1/5::real]) \<and>
         simulatedBeta (table ! 3) = [1/20, 1/5] ! (3 mod length [1/20, 1/5::real]) \<and>
         stacked_data st ! 3 =
           Data4 (simulated_subject example_simulators [1/10, 1/2, 9/10] [1/20, 1/5] [7/10] 0 3)"
    by blast
  moreover have "[1/10, 1/2, 9/10::real] ! (3 div length [1/20, 1/5::real]) = 1/2"
    "[1/20, 1/5::real] ! (3 mod length [1/20, 1/5::real]) = 1/5"
  proof -
    show "[1/10, 1/2, 9/10::real] ! (3 div length [1/20, 1/5::real]) = 1/2"
      unfolding two dm by simp
    show "[1/20, 1/5::real] ! (3 mod length [1/20, 1/5::real]) = 1/5"
      unfolding two dm by simp
  qed
  ultimately have r: "simulatedAlpha (table ! 3) = 1/2 \<and> simulatedBeta (table ! 3) = 1/5 \<and>
      stacked_data st ! 3 = Data4 ([1], [10], [6], [1])"
    unfolding sb by (simp only:)
  have l: "length table = 6" using t(3) by simp
  have e: "\<exists>st table.
      recovery_loops example_simulators [1/10, 1/2, 9/10] [1/20, 1/5] [7/10] 0 = Inr st \<and>
      run_paramterer_recovery echo_fitters example_simulators [1/10, 1/2, 9/10] [1/20, 1/5] [7/10]
        0 2 = Inr table \<and>
      length table = 6 \<and>
      simulatedAlpha (table ! 3) = 1/2 \<and> simulatedBeta (table ! 3) = 1/5 \<and>
      stacked_data st ! 3 = Data4 ([1], [10], [6], [1])"
    using t(1) t(2) l r by blast
  show ?thesis using ok n v sb e by blast
qed

end
